theory Spec2Isabelle
  imports Main "HOL-Library.Sublist"
begin

section \<open>Strings, numbers and the three regular expressions of \<open>scripts/backport.js\<close>\<close>

text \<open>
  A JavaScript string is modelled as a HOL \<open>string\<close>: a list of code units, each below
  256. The whitespace class \<open>\s\<close> and the line terminators excluded by \<open>.\<close> are
  restricted to the members that exist in that range.
\<close>

definition newline :: string where
  "newline = ''\<newline>''"

definition is_line_terminator :: "char \<Rightarrow> bool" where
  "is_line_terminator c = (c = CHR 0x0A \<or> c = CHR 0x0D)"

definition is_space :: "char \<Rightarrow> bool" where
  "is_space c = (c \<in> set [CHR 0x09, CHR 0x0A, CHR 0x0B, CHR 0x0C, CHR 0x0D, CHR 0x20, CHR 0xA0])"

definition is_digit :: "char \<Rightarrow> bool" where
  "is_digit c = (c \<in> set ''0123456789'')"

text \<open>Canonicalisation of the \<open>i\<close> flag: an ASCII letter matches both of its cases.\<close>

definition upper_ascii :: "char \<Rightarrow> char" where
  "upper_ascii c =
     (if (97::nat) \<le> of_char c \<and> of_char c \<le> (122::nat) then char_of (of_char c - (32::nat)) else c)"

text \<open>A literal piece of a pattern, matched at the start of the input; the rest is returned.\<close>

fun match_literal :: "string \<Rightarrow> string \<Rightarrow> string option" where
  "match_literal [] s = Some s"
| "match_literal (p # ps) [] = None"
| "match_literal (p # ps) (c # cs) = (if p = c then match_literal ps cs else None)"

fun match_literal_i :: "string \<Rightarrow> string \<Rightarrow> string option" where
  "match_literal_i [] s = Some s"
| "match_literal_i (p # ps) [] = None"
| "match_literal_i (p # ps) (c # cs) =
     (if upper_ascii p = upper_ascii c then match_literal_i ps cs else None)"

text \<open>\<open>String.prototype.split\<close> at one separator character.\<close>

fun split_at :: "char \<Rightarrow> string \<Rightarrow> string \<Rightarrow> string list" where
  "split_at sep cur [] = [rev cur]"
| "split_at sep cur (c # cs) =
     (if c = sep then rev cur # split_at sep [] cs else split_at sep (c # cur) cs)"

text \<open>
  \<open>allBranches.split(/\s+/)\<close>: the pieces between maximal runs of whitespace; a leading
  or trailing run leaves an empty piece, and the empty string gives one empty piece.
\<close>

fun split_spaces :: "string \<Rightarrow> bool \<Rightarrow> string \<Rightarrow> string list" where
  "split_spaces cur in_sep [] = [rev cur]"
| "split_spaces cur in_sep (c # cs) =
     (if is_space c then
        (if in_sep then split_spaces cur True cs else rev cur # split_spaces [] True cs)
      else split_spaces (c # cur) False cs)"

text \<open>
  \<open>PR_URL_REGEX = /^https\:\/\/github.com\/([^\/]+\/[^\/]+)\/pull\/(\d+)$/\<close>.
  The dot between \<open>github\<close> and \<open>com\<close> is not escaped: it stands for any one character
  that is not a line terminator. Neither \<open>[^\/]+\<close> can cross a slash, so what follows
  \<open>com/\<close> splits at its slashes into exactly owner, repository, \<open>pull\<close> and the number.
  The result holds the two capture groups.
\<close>

definition PR_URL_REGEX :: "string \<Rightarrow> (string \<times> string) option" where
  "PR_URL_REGEX url =
     (case match_literal ''https://github'' url of
        None \<Rightarrow> None
      | Some [] \<Rightarrow> None
      | Some (c # r) \<Rightarrow>
          if is_line_terminator c then None
          else (case match_literal ''com/'' r of
                  None \<Rightarrow> None
                | Some rest \<Rightarrow>
                    (case split_at CHR ''/'' [] rest of
                       [owner, rname, pull, num] \<Rightarrow>
                         if owner \<noteq> [] \<and> rname \<noteq> [] \<and> pull = ''pull''
                            \<and> num \<noteq> [] \<and> list_all is_digit num
                         then Some (owner @ ''/'' @ rname, num)
                         else None
                     | _ \<Rightarrow> None)))"

text \<open>
  \<open>CONFLICTS_REGEX = /applied patch to \'.+\' with conflicts/i\<close>, used through
  \<open>test\<close>: the pattern may start anywhere in the message.
\<close>

definition quote :: string where
  "quote = [CHR 0x27]"

fun conflicts_tail :: "string \<Rightarrow> bool" where
  "conflicts_tail [] = False"
| "conflicts_tail (c # cs) =
     (\<not> is_line_terminator c
      \<and> (match_literal_i (quote @ '' with conflicts'') cs \<noteq> None \<or> conflicts_tail cs))"

definition conflicts_here :: "string \<Rightarrow> bool" where
  "conflicts_here s =
     (case match_literal_i (''applied patch to '' @ quote) s of
        None \<Rightarrow> False
      | Some rest \<Rightarrow> conflicts_tail rest)"

fun CONFLICTS_REGEX_test :: "string \<Rightarrow> bool" where
  "CONFLICTS_REGEX_test [] = False"
| "CONFLICTS_REGEX_test (c # cs) = (conflicts_here (c # cs) \<or> CONFLICTS_REGEX_test cs)"

text \<open>The decimal numeral of a counter, as a template literal prints it.\<close>

fun string_of_nat :: "nat \<Rightarrow> string" where
  "string_of_nat n =
     (if n < 10 then [char_of (48 + n)]
      else string_of_nat (n div 10) @ [char_of (48 + n mod 10)])"

declare string_of_nat.simps [simp del]

text \<open>\<open>Array.prototype.join\<close>.\<close>

fun join :: "string \<Rightarrow> string list \<Rightarrow> string" where
  "join sep [] = []"
| "join sep [x] = x"
| "join sep (x # y # ys) = x @ sep @ join sep (y # ys)"


section \<open>Data received from the GitHub API\<close>

text \<open>
  \<open>info\<close> as the handler reads it: \<open>info.base.ref\<close>, \<open>info.base.repo.ssh_url\<close>,
  \<open>info.head.ref\<close>, \<open>info.merged\<close>, \<open>info.merged_by.login\<close> and \<open>info.diff_url\<close>.
\<close>

record pr_info =
  base_ref :: string
  base_repo_ssh_url :: string
  head_ref :: string
  merged :: bool
  merged_by_login :: string
  diff_url :: string

record person =
  name :: string
  email :: string
  date :: string

record commit_data =
  author :: person
  committer :: person
  message :: string

record commit_entry =
  commit :: commit_data
  sha :: string


section \<open>The consolidated commit message\<close>

text \<open>
  The body of \<open>commits.map\<close> (lines 60 to 75): \<open>num\<close> has been incremented already when
  the block is built.
\<close>

definition commit_block :: "nat \<Rightarrow> commit_entry \<Rightarrow> string" where
  "commit_block num data =
     join newline
       [''[Commit '' @ string_of_nat num @ '']'',
        message (commit data) @ newline,
        ''Original sha: '' @ sha data,
        ''Authored by '' @ name (author (commit data)) @ '' <'' @ email (author (commit data))
          @ ''> on '' @ date (author (commit data)),
        ''Committed by '' @ name (committer (commit data)) @ '' <''
          @ email (committer (commit data)) @ ''> on '' @ date (committer (commit data))]"

fun map_commits :: "nat \<Rightarrow> commit_entry list \<Rightarrow> string list" where
  "map_commits num [] = []"
| "map_commits num (data # rest) = commit_block (num + 1) data # map_commits (num + 1) rest"

definition baseCommitMessage :: "commit_entry list \<Rightarrow> string" where
  "baseCommitMessage commits = join (newline @ newline) (map_commits 0 commits)"

text \<open>\<open>backportBranchName\<close> (lines 87 to 89), closed over \<open>number\<close> and \<open>original\<close>.\<close>

definition backportBranchName :: "string \<Rightarrow> string \<Rightarrow> string \<Rightarrow> string" where
  "backportBranchName number original target =
     ''jasper/backport/'' @ number @ ''-'' @ target @ ''-'' @ original"


section \<open>Collaborators, events and the state of a run\<close>

text \<open>A rejected promise or a thrown exception carries a JavaScript error.\<close>

datatype err = Error (err_message: string)

type_synonym oid = string

text \<open>
  Modelled from the spec: \<open>getSignature\<close> of \<open>src/git\<close> is not part of the sources; the
  spec calls what it returns a fixed bot signature. It takes no argument, and its result is
  a parameter of the world below.
\<close>

record signature =
  sig_name :: string
  sig_email :: string

text \<open>The \<open>params\<close> objects of lines 181 to 186 and 194 to 198.\<close>

record issue_params =
  title :: string
  body :: string
  assignee :: string
  labels :: "string list"

record pr_params =
  issue :: nat
  head :: string
  base :: string

text \<open>
  Every call that leaves the handler is an event; it records the arguments of the call and
  what the collaborator answered (\<open>Inl\<close>: the promise was rejected, or the callback got an
  error). The constant \<open>fetchOpts\<close> is not recorded. \<open>RequestGet\<close> answers with the body
  of the response, \<open>TmpFile\<close> with the path of the file; the \<open>cleanup\<close> function that
  comes with the path is the event \<open>CleanupTmp\<close> when it is called.
\<close>

datatype event =
    GetInfo string string "err + pr_info"
  | GetCommits string string "err + commit_entry list"
  | RequestGet string "err + string"
  | TmpFile string "err + string"
  | WriteFile string string "err + unit"
  | OpenOrClone string string "err + unit"
  | Fetch string "err + unit"
  | GetReferenceCommit string "err + oid"
  | CreateBranch string oid "err + unit"
  | CheckoutBranch string "err + unit"
  | ExecFile string "string list" string "err + unit"
  | RepoIndex "err + unit"
  | IndexAddAll string "err + unit"
  | IndexWrite "err + unit"
  | IndexWriteTree "err + oid"
  | GetHeadCommit "err + oid"
  | GetSignature "err + signature"
  | CreateCommit string signature signature string oid "oid list" "err + oid"
  | GetRemote string "err + unit"
  | Push "string list" "err + unit"
  | CreateIssue string issue_params "err + nat"
  | CreatePullRequest string pr_params "err + unit"
  | CleanupTmp string
  | Send string
  | EmitError err

text \<open>
  The world outside the handler: one oracle for each collaborator. An oracle sees the
  arguments of the call and the events so far, so the answer to a call may depend on
  everything that happened before it. \<open>repoDir\<close> stands for
  \<open>resolve(__dirname, '..', 'repos', repo)\<close>.
\<close>

record world =
  getInfo :: "string \<Rightarrow> string \<Rightarrow> event list \<Rightarrow> err + pr_info"
  getCommits :: "string \<Rightarrow> string \<Rightarrow> event list \<Rightarrow> err + commit_entry list"
  requestGet :: "string \<Rightarrow> event list \<Rightarrow> err + string"
  tmpFile :: "string \<Rightarrow> event list \<Rightarrow> err + string"
  writeFile :: "string \<Rightarrow> string \<Rightarrow> event list \<Rightarrow> err + unit"
  repoDir :: "string \<Rightarrow> string"
  openOrClone :: "string \<Rightarrow> string \<Rightarrow> event list \<Rightarrow> err + unit"
  repo_fetch :: "string \<Rightarrow> event list \<Rightarrow> err + unit"
  getReferenceCommit :: "string \<Rightarrow> event list \<Rightarrow> err + oid"
  createBranch :: "string \<Rightarrow> oid \<Rightarrow> event list \<Rightarrow> err + unit"
  checkoutBranch :: "string \<Rightarrow> event list \<Rightarrow> err + unit"
  execFile :: "string \<Rightarrow> string list \<Rightarrow> string \<Rightarrow> event list \<Rightarrow> err + unit"
  repo_index :: "event list \<Rightarrow> err + unit"
  index_addAll :: "string \<Rightarrow> event list \<Rightarrow> err + unit"
  index_write :: "event list \<Rightarrow> err + unit"
  index_writeTree :: "event list \<Rightarrow> err + oid"
  getHeadCommit :: "event list \<Rightarrow> err + oid"
  getSignature :: "err + signature"
  createCommit ::
    "string \<Rightarrow> signature \<Rightarrow> signature \<Rightarrow> string \<Rightarrow> oid \<Rightarrow> oid list \<Rightarrow> event list \<Rightarrow> err + oid"
  getRemote :: "string \<Rightarrow> event list \<Rightarrow> err + unit"
  push :: "string list \<Rightarrow> event list \<Rightarrow> err + unit"
  createIssue :: "string \<Rightarrow> issue_params \<Rightarrow> event list \<Rightarrow> err + nat"
  createPullRequest :: "string \<Rightarrow> pr_params \<Rightarrow> event list \<Rightarrow> err + unit"

text \<open>
  The mutable variables of the handler: \<open>cleanupTmp\<close> (line 77, a no-op until
  \<open>tmp.file\<close> has answered) and \<open>branchesWithConflicts\<close> (line 108), next to the events
  that have happened.
\<close>

datatype cleanup = Noop | Cleanup string

record state =
  trace :: "event list"
  cleanupTmp :: cleanup
  branchesWithConflicts :: "string list"

definition initial :: state where
  "initial = \<lparr>trace = [], cleanupTmp = Noop, branchesWithConflicts = []\<rparr>"


section \<open>Promises\<close>

text \<open>
  A promise chain is run to its end: from a state it gives the state it leaves and either
  the error it was rejected with or the value it was resolved with.
\<close>

type_synonym 'a promise = "state \<Rightarrow> state \<times> (err + 'a)"

definition resolve :: "'a \<Rightarrow> 'a promise" where
  "resolve x s = (s, Inr x)"

definition reject :: "err \<Rightarrow> 'a promise" where
  "reject e s = (s, Inl e)"

text \<open>\<open>p.then(f)\<close>: a rejection skips \<open>f\<close>.\<close>

definition then_p :: "'a promise \<Rightarrow> ('a \<Rightarrow> 'b promise) \<Rightarrow> 'b promise" where
  "then_p p f s = (case p s of (s', Inl e) \<Rightarrow> (s', Inl e) | (s', Inr x) \<Rightarrow> f x s')"

text \<open>A call of a collaborator: the oracle answers from the events so far.\<close>

definition call :: "(event list \<Rightarrow> err + 'a) \<Rightarrow> (err + 'a \<Rightarrow> event) \<Rightarrow> 'a promise" where
  "call oracle ev s = (let r = oracle (trace s) in (s\<lparr>trace := trace s @ [ev r]\<rparr>, r))"

text \<open>A call that cannot fail and answers nothing.\<close>

definition emit :: "event \<Rightarrow> unit promise" where
  "emit ev s = (s\<lparr>trace := trace s @ [ev]\<rparr>, Inr ())"

text \<open>
  A promise that is started where it is created and looked at later: \<open>started\<close> runs it
  and keeps how it settled, \<open>await\<close> is the later \<open>.then(() => p)\<close>.
\<close>

definition started :: "'a promise \<Rightarrow> (err + 'a) promise" where
  "started p s = (case p s of (s', r) \<Rightarrow> (s', Inr r))"

definition await :: "err + 'a \<Rightarrow> 'a promise" where
  "await r s = (s, r)"

text \<open>
  \<open>Promise.all\<close> of two promises: both are started, in this order, whatever the first
  one does; of two rejections the first is reported.
\<close>

definition all2 :: "'a promise \<Rightarrow> 'b promise \<Rightarrow> ('a \<times> 'b) promise" where
  "all2 p q s =
     (case p s of (s1, r1) \<Rightarrow>
        (case q s1 of (s2, r2) \<Rightarrow>
           (s2, case r1 of Inl e \<Rightarrow> Inl e
                | Inr a \<Rightarrow> (case r2 of Inl e \<Rightarrow> Inl e | Inr b \<Rightarrow> Inr (a, b)))))"

text \<open>\<open>Promise.all\<close> of promises that have settled: the first rejection, or all values.\<close>

fun all_settled :: "(err + 'a) list \<Rightarrow> err + 'a list" where
  "all_settled [] = Inr []"
| "all_settled (Inl e # rs) = Inl e"
| "all_settled (Inr x # rs) = (case all_settled rs of Inl e \<Rightarrow> Inl e | Inr xs \<Rightarrow> Inr (x # xs))"

definition get_state :: "(state \<Rightarrow> 'a) \<Rightarrow> 'a promise" where
  "get_state f s = (s, Inr (f s))"

definition modify :: "(state \<Rightarrow> state) \<Rightarrow> unit promise" where
  "modify f s = (f s, Inr ())"


section \<open>The handler of \<open>jasper backport <pr-url> <branches>\<close>\<close>

text \<open>Lines 47 to 55: the two checks made on the answer of \<open>getInfo\<close>.\<close>

definition validate :: "string list \<Rightarrow> pr_info \<Rightarrow> unit promise" where
  "validate branches info =
     (if base_ref info \<in> set branches
      then reject (Error ''Cannot backport into original PR target branch'')
      else if \<not> merged info
      then reject (Error ''Cannot backport unmerged pull requests'')
      else resolve ())"

text \<open>
  Lines 78 to 85: the download of the diff into a temporary file. \<open>cleanupTmp\<close> is
  assigned when \<open>tmp.file\<close> has answered, before the diff is written.
\<close>

definition diffFile :: "world \<Rightarrow> pr_info \<Rightarrow> string promise" where
  "diffFile w info =
     then_p (call (requestGet w (diff_url info)) (RequestGet (diff_url info))) (\<lambda>diff.
     then_p (call (tmpFile w ''jasper-'') (TmpFile ''jasper-'')) (\<lambda>path.
     then_p (modify (\<lambda>s. s\<lparr>cleanupTmp := Cleanup path\<rparr>)) (\<lambda>_.
     then_p (call (writeFile w path diff) (WriteFile path diff)) (\<lambda>_.
     resolve path))))"

text \<open>
  Lines 126 to 137: \<open>git apply --3way\<close>. An error whose message matches
  \<open>CONFLICTS_REGEX\<close> records the target and resolves; any other error rejects.
\<close>

definition apply_patch :: "world \<Rightarrow> string \<Rightarrow> string \<Rightarrow> string \<Rightarrow> unit promise" where
  "apply_patch w cwd target path =
     then_p (started (call (execFile w ''git'' [''apply'', ''--3way'', path] cwd)
                           (ExecFile ''git'' [''apply'', ''--3way'', path] cwd))) (\<lambda>r.
       case r of
         Inr _ \<Rightarrow> resolve ()
       | Inl err \<Rightarrow>
           if \<not> CONFLICTS_REGEX_test (err_message err) then reject err
           else modify (\<lambda>s. s\<lparr>branchesWithConflicts := branchesWithConflicts s @ [target]\<rparr>))"

definition commitMessage :: "string \<Rightarrow> string \<Rightarrow> string \<Rightarrow> string" where
  "commitMessage number target base_message =
     ''Backport PR #'' @ number @ '' to '' @ target @ newline @ newline @ base_message"

text \<open>
  Lines 139 to 159: everything in the working tree is staged, the index is written as a
  tree, and the commit is created on \<open>HEAD\<close> with the head commit as its only parent.
\<close>

definition commit_all :: "world \<Rightarrow> string \<Rightarrow> oid promise" where
  "commit_all w commit_message =
     then_p (call (repo_index w) RepoIndex) (\<lambda>index.
     then_p (then_p (call (index_addAll w ''.'') (IndexAddAll ''.'')) (\<lambda>_.
             then_p (call (index_write w) IndexWrite) (\<lambda>_.
             call (index_writeTree w) IndexWriteTree))) (\<lambda>treeOid.
     then_p (all2 (call (getHeadCommit w) GetHeadCommit)
                  (call (\<lambda>_. getSignature w) GetSignature)) (\<lambda>(parent, signature).
     call (createCommit w ''HEAD'' signature signature commit_message treeOid [parent])
          (CreateCommit ''HEAD'' signature signature commit_message treeOid [parent]))))"

text \<open>Lines 114 to 159: what the reduction appends to the chain for one target.\<close>

definition backport_target ::
  "world \<Rightarrow> string \<Rightarrow> string \<Rightarrow> string \<Rightarrow> string \<Rightarrow> err + string \<Rightarrow> string \<Rightarrow> oid promise" where
  "backport_target w number original base_message cwd diff target =
     (let backportBranch = backportBranchName number original target in
      then_p (call (getReferenceCommit w (''origin/'' @ target))
                   (GetReferenceCommit (''origin/'' @ target))) (\<lambda>commit.
      then_p (call (createBranch w backportBranch commit) (CreateBranch backportBranch commit)) (\<lambda>_.
      then_p (call (checkoutBranch w backportBranch) (CheckoutBranch backportBranch)) (\<lambda>_.
      then_p (await diff) (\<lambda>path.
      then_p (apply_patch w cwd target path) (\<lambda>_.
      commit_all w (commitMessage number target base_message)))))))"

text \<open>
  Lines 112 to 160: \<open>branches.reduce\<close> over the chain that starts with \<open>repo.fetch\<close>.
  The value a link of the chain resolves with is never used.
\<close>

definition discard :: "'a promise \<Rightarrow> unit promise" where
  "discard p = then_p p (\<lambda>_. resolve ())"

definition backport_branches ::
  "world \<Rightarrow> string \<Rightarrow> string \<Rightarrow> string \<Rightarrow> string \<Rightarrow> err + string \<Rightarrow> string list \<Rightarrow> unit promise" where
  "backport_branches w number original base_message cwd diff branches =
     foldl (\<lambda>promise target.
              then_p promise (\<lambda>_.
                discard (backport_target w number original base_message cwd diff target)))
           (call (repo_fetch w ''origin'') (Fetch ''origin''))
           branches"

text \<open>Lines 162 to 173: one push after the other.\<close>

definition refspec :: "string \<Rightarrow> string list" where
  "refspec branch = (let ref = ''refs/heads/'' @ branch in [ref @ '':'' @ ref])"

definition push_branches :: "world \<Rightarrow> string \<Rightarrow> string \<Rightarrow> string list \<Rightarrow> unit promise" where
  "push_branches w number original branches =
     then_p (call (getRemote w ''origin'') (GetRemote ''origin'')) (\<lambda>remote.
       foldl (\<lambda>promise refs. then_p promise (\<lambda>_. call (push w refs) (Push refs)))
             (resolve ())
             (map refspec (map (backportBranchName number original) branches)))"

text \<open>
  Lines 176 to 202. \<open>branches.map\<close> calls \<open>createIssue\<close> for every target before any
  answer arrives; each answer that is an issue is followed by \<open>createPullRequest\<close>, and
  \<open>Promise.all\<close> waits for all of them. The pull requests are taken in the order of the
  targets, and \<open>Promise.all\<close> is looked at when every chain has settled. This is one of
  the schedules of the code, in which a pull request is asked for when its issue is
  answered and the rejection that comes first in time is the one reported.
\<close>

definition issue_request :: "string \<Rightarrow> string \<Rightarrow> pr_info \<Rightarrow> string list \<Rightarrow> string \<Rightarrow> issue_params" where
  "issue_request number base_message info conflicts target =
     \<lparr>title = ''[backport] PR #'' @ number @ '' to '' @ target,
      body = ''Backport PR #'' @ number @ '' to '' @ target @ newline @ newline @ base_message,
      assignee = merged_by_login info,
      labels = [''backport''] @ (if target \<in> set conflicts then [''has conflicts''] else [])\<rparr>"

definition pull_request :: "string \<Rightarrow> string \<Rightarrow> string \<Rightarrow> nat \<Rightarrow> pr_params" where
  "pull_request number original target issue_number =
     \<lparr>issue = issue_number, head = backportBranchName number original target, base = target\<rparr>"

fun create_issues ::
  "world \<Rightarrow> string \<Rightarrow> string \<Rightarrow> string \<Rightarrow> pr_info \<Rightarrow> string list \<Rightarrow> (string \<times> (err + nat)) list promise" where
  "create_issues w repo number base_message info [] = resolve []"
| "create_issues w repo number base_message info (target # rest) =
     then_p (get_state branchesWithConflicts) (\<lambda>conflicts.
     then_p (started (call (createIssue w repo (issue_request number base_message info conflicts target))
                           (CreateIssue repo (issue_request number base_message info conflicts target)))) (\<lambda>r.
     then_p (create_issues w repo number base_message info rest) (\<lambda>rs.
     resolve ((target, r) # rs))))"

fun create_pull_requests ::
  "world \<Rightarrow> string \<Rightarrow> string \<Rightarrow> string \<Rightarrow> (string \<times> (err + nat)) list \<Rightarrow> (err + unit) list promise" where
  "create_pull_requests w repo number original [] = resolve []"
| "create_pull_requests w repo number original ((target, r) # rest) =
     then_p (started (then_p (await r) (\<lambda>issue_number.
               call (createPullRequest w repo (pull_request number original target issue_number))
                    (CreatePullRequest repo (pull_request number original target issue_number))))) (\<lambda>x.
     then_p (create_pull_requests w repo number original rest) (\<lambda>xs.
     resolve (x # xs)))"

definition publish ::
  "world \<Rightarrow> string \<Rightarrow> string \<Rightarrow> string \<Rightarrow> pr_info \<Rightarrow> string list \<Rightarrow> unit list promise" where
  "publish w repo number base_message info branches =
     then_p (create_issues w repo number base_message info branches) (\<lambda>issues.
     then_p (create_pull_requests w repo number (head_ref info) issues) (\<lambda>settled.
     await (all_settled settled)))"

text \<open>Lines 204 to 208.\<close>

definition call_cleanupTmp :: "unit promise" where
  "call_cleanupTmp s =
     (case cleanupTmp s of Noop \<Rightarrow> resolve () s | Cleanup path \<Rightarrow> emit (CleanupTmp path) s)"

definition report :: "string \<Rightarrow> string list \<Rightarrow> string" where
  "report number branches =
     ''Backported pull request #'' @ number @ '' to '' @ join '', '' branches"

text \<open>
  Lines 46 to 210: the callback that receives \<open>info\<close> and \<open>commits\<close>. The download of
  the diff is started on line 78 and runs beside the rest; here it is taken to have
  settled when \<open>openOrClone\<close> is called. This is one of the schedules of the code, in
  which \<open>tmp.file\<close> and \<open>writeFile\<close> may be called at any point before the chain
  waits for the file on line 124.
\<close>

definition backport_steps ::
  "world \<Rightarrow> string \<Rightarrow> string \<Rightarrow> string list \<Rightarrow> pr_info \<Rightarrow> commit_entry list \<Rightarrow> unit promise" where
  "backport_steps w repo number branches info commits =
     then_p (validate branches info) (\<lambda>_.
     then_p (started (diffFile w info)) (\<lambda>diff.
     then_p (call (openOrClone w (repoDir w repo) (base_repo_ssh_url info))
                  (OpenOrClone (repoDir w repo) (base_repo_ssh_url info))) (\<lambda>_.
     then_p (backport_branches w number (head_ref info) (baseCommitMessage commits)
               (repoDir w repo) diff branches) (\<lambda>_.
     then_p (push_branches w number (head_ref info) branches) (\<lambda>_.
     then_p (publish w repo number (baseCommitMessage commits) info branches) (\<lambda>_.
     then_p call_cleanupTmp (\<lambda>_.
     emit (Send (report number branches)))))))))"

text \<open>Lines 42 to 211: the whole chain with its \<open>catch\<close>; the result is what happened.\<close>

definition backport :: "world \<Rightarrow> string \<Rightarrow> string \<Rightarrow> string list \<Rightarrow> event list" where
  "backport w repo number branches =
     (case then_p (all2 (call (getInfo w repo number) (GetInfo repo number))
                        (call (getCommits w repo number) (GetCommits repo number)))
                  (\<lambda>(info, commits). backport_steps w repo number branches info commits)
                  initial of
        (s, Inl e) \<Rightarrow> trace s @ [EmitError e]
      | (s, Inr _) \<Rightarrow> trace s)"

text \<open>
  Lines 31 to 41: the listener. The destructuring of line 37 throws a \<open>TypeError\<close> when
  \<open>url.match\<close> is \<open>null\<close>; that happens before the chain exists.
\<close>

datatype outcome = Threw_TypeError | Returned "event list"

definition handler :: "world \<Rightarrow> string \<Rightarrow> string \<Rightarrow> outcome" where
  "handler w url allBranches =
     (let branches = split_spaces [] False allBranches in
      case PR_URL_REGEX url of
        None \<Rightarrow> Threw_TypeError
      | Some (repo, number) \<Rightarrow> Returned (backport w repo number branches))"

section \<open>Proof devices and observations of a run\<close>

definition wp :: "'a promise \<Rightarrow> (state \<Rightarrow> err + 'a \<Rightarrow> bool) \<Rightarrow> state \<Rightarrow> bool" where
  "wp p Q s = (case p s of (s', r) \<Rightarrow> Q s' r)"

definition emits :: "(event \<Rightarrow> bool) \<Rightarrow> 'a promise \<Rightarrow> bool" where
  "emits K p = (\<forall>s. wp p (\<lambda>s' r. \<exists>evs. trace s' = trace s @ evs \<and> list_all K evs) s)"

definition every_occ :: "(event list \<Rightarrow> event \<Rightarrow> bool) \<Rightarrow> event list \<Rightarrow> bool" where
  "every_occ \<phi> tr = (\<forall>pre x post. tr = pre @ x # post \<longrightarrow> \<phi> pre x)"

fun created_of :: "event \<Rightarrow> string list" where
  "created_of (CreateBranch n c (Inr u)) = [n]"
| "created_of _ = []"

definition created_branches :: "event list \<Rightarrow> string list" where
  "created_branches tr = concat (map created_of tr)"

definition succeeded :: "event list \<Rightarrow> bool" where
  "succeeded tr = (tr \<noteq> [] \<and> (case last tr of Send m \<Rightarrow> True | _ \<Rightarrow> False))"

fun target_event :: "event \<Rightarrow> bool" where
  "target_event (GetReferenceCommit n r) = True"
| "target_event (CreateBranch n c r) = True"
| "target_event (CheckoutBranch n r) = True"
| "target_event (ExecFile c a d r) = True"
| "target_event (RepoIndex r) = True"
| "target_event (IndexAddAll p r) = True"
| "target_event (IndexWrite r) = True"
| "target_event (IndexWriteTree r) = True"
| "target_event (GetHeadCommit r) = True"
| "target_event (GetSignature r) = True"
| "target_event (CreateCommit h a c m t p r) = True"
| "target_event _ = False"

fun diff_event :: "event \<Rightarrow> bool" where
  "diff_event (RequestGet u r) = True"
| "diff_event (TmpFile p r) = True"
| "diff_event (WriteFile p d r) = True"
| "diff_event _ = False"

fun push_event :: "event \<Rightarrow> bool" where
  "push_event (GetRemote n r) = True"
| "push_event (Push refs r) = True"
| "push_event _ = False"

fun publish_event :: "event \<Rightarrow> bool" where
  "publish_event (CreateIssue g p r) = True"
| "publish_event (CreatePullRequest g p r) = True"
| "publish_event _ = False"

definition issue_events ::
  "string \<Rightarrow> string \<Rightarrow> string \<Rightarrow> pr_info \<Rightarrow> string list \<Rightarrow> string list \<Rightarrow> (err + nat) list \<Rightarrow> event list" where
  "issue_events repo number base_message info conflicts branches rs =
     map (\<lambda>(target, r). CreateIssue repo (issue_request number base_message info conflicts target) r)
         (zip branches rs)"

definition pr_events ::
  "string \<Rightarrow> string \<Rightarrow> string \<Rightarrow> (string \<times> (err + nat)) list \<Rightarrow> (err + unit) list \<Rightarrow> event list" where
  "pr_events repo number original answered qs =
     concat (map (\<lambda>((target, r), q). case r of Inl e \<Rightarrow> []
                    | Inr n \<Rightarrow> [CreatePullRequest repo (pull_request number original target n) q])
                 (zip answered qs))"

definition settled :: "(string \<times> (err + nat)) list \<Rightarrow> (err + unit) list \<Rightarrow> (err + unit) list" where
  "settled answered qs = map (\<lambda>((target, r), q). case r of Inl e \<Rightarrow> Inl e | Inr n \<Rightarrow> q) (zip answered qs)"

fun applied_of :: "event \<Rightarrow> (err + unit) list" where
  "applied_of (ExecFile c a d r) = [r]"
| "applied_of _ = []"

definition apply_results :: "event list \<Rightarrow> (err + unit) list" where
  "apply_results tr = concat (map applied_of tr)"

fun pushed_of :: "event \<Rightarrow> (string list \<times> (err + unit)) list" where
  "pushed_of (Push refs r) = [(refs, r)]"
| "pushed_of _ = []"

definition pushes :: "event list \<Rightarrow> (string list \<times> (err + unit)) list" where
  "pushes tr = concat (map pushed_of tr)"


section \<open>The scenario of the specification, as a world\<close>

text \<open>
  Pull request 42 of \<open>elastic/kibana\<close>: base \<open>main\<close>, head \<open>feature-x\<close>, merged, one
  commit, to be backported to \<open>release-1.0\<close> and \<open>release-2.0\<close>. Every collaborator
  succeeds, except that the outcome of the n-th \<open>git apply\<close> and of the n-th push are
  parameters.
\<close>

definition scenario_info :: pr_info where
  "scenario_info =
     \<lparr>base_ref = ''main'', base_repo_ssh_url = ''git@github.com:elastic/kibana.git'',
      head_ref = ''feature-x'', merged = True, merged_by_login = ''alice'',
      diff_url = ''https://github.com/elastic/kibana/pull/42.diff''\<rparr>"

definition scenario_commits :: "commit_entry list" where
  "scenario_commits =
     [\<lparr>commit = \<lparr>author = \<lparr>name = ''A'', email = ''a@x.com'', date = ''2020-01-01''\<rparr>,
                 committer = \<lparr>name = ''A'', email = ''a@x.com'', date = ''2020-01-01''\<rparr>,
                 message = ''Fix bug''\<rparr>,
       sha = ''abc123''\<rparr>]"

definition scenario_signature :: signature where
  "scenario_signature = \<lparr>sig_name = ''jasper'', sig_email = ''jasper@example.org''\<rparr>"

definition scenario_world :: "pr_info \<Rightarrow> (nat \<Rightarrow> err + unit) \<Rightarrow> (nat \<Rightarrow> err + unit) \<Rightarrow> world" where
  "scenario_world info applies pushing =
     \<lparr>getInfo = (\<lambda>repo number tr. Inr info),
      getCommits = (\<lambda>repo number tr. Inr scenario_commits),
      requestGet = (\<lambda>url tr. Inr ''diff --git a/f b/f''),
      tmpFile = (\<lambda>prefix tr. Inr ''/tmp/jasper-1''),
      writeFile = (\<lambda>path data tr. Inr ()),
      repoDir = (\<lambda>repo. ''/srv/jasper/repos/'' @ repo),
      openOrClone = (\<lambda>dir url tr. Inr ()),
      repo_fetch = (\<lambda>remote tr. Inr ()),
      getReferenceCommit = (\<lambda>ref tr. Inr (''tip of '' @ ref)),
      createBranch = (\<lambda>branch oid tr. Inr ()),
      checkoutBranch = (\<lambda>branch tr. Inr ()),
      execFile = (\<lambda>cmd args cwd tr. applies (length (apply_results tr))),
      repo_index = (\<lambda>tr. Inr ()),
      index_addAll = (\<lambda>pathspec tr. Inr ()),
      index_write = (\<lambda>tr. Inr ()),
      index_writeTree = (\<lambda>tr. Inr (''tree '' @ string_of_nat (length (apply_results tr)))),
      getHeadCommit = (\<lambda>tr. Inr (''head '' @ string_of_nat (length (apply_results tr)))),
      getSignature = Inr scenario_signature,
      createCommit = (\<lambda>ref a c msg tree parents tr.
                        Inr (''commit '' @ string_of_nat (length (apply_results tr)))),
      getRemote = (\<lambda>remote tr. Inr ()),
      push = (\<lambda>refs tr. pushing (length (pushes tr))),
      createIssue = (\<lambda>repo params tr. Inr (100 + length tr)),
      createPullRequest = (\<lambda>repo params tr. Inr ())\<rparr>"

definition targets :: "string list" where
  "targets = [''release-1.0'', ''release-2.0'']"

definition conflict_message :: string where
  "conflict_message =
     ''Command failed: git apply --3way /tmp/jasper-1'' @ newline
     @ ''Applied patch to '' @ quote @ ''src/a.js'' @ quote @ '' with conflicts.''"

definition clean_world :: world where
  "clean_world = scenario_world scenario_info (\<lambda>n. Inr ()) (\<lambda>n. Inr ())"

definition conflict_world :: world where
  "conflict_world =
     scenario_world scenario_info
       (\<lambda>n. if n = 0 then Inl (Error conflict_message) else Inr ()) (\<lambda>n. Inr ())"

definition broken_patch_world :: world where
  "broken_patch_world =
     scenario_world scenario_info
       (\<lambda>n. Inl (Error ''error: patch failed: src/a.js:1'')) (\<lambda>n. Inr ())"

definition rejected_push_world :: world where
  "rejected_push_world =
     scenario_world scenario_info (\<lambda>n. Inr ())
       (\<lambda>n. if n = 0 then Inl (Error ''failed to push some refs'') else Inr ())"

definition unmerged_world :: world where
  "unmerged_world =
     scenario_world (scenario_info\<lparr>merged := False\<rparr>) (\<lambda>n. Inr ()) (\<lambda>n. Inr ())"

text \<open>The number a string of decimal digits stands for.\<close>

definition decimal :: "string \<Rightarrow> nat" where
  "decimal s = foldl (\<lambda>a c. 10 * a + (of_char c - 48)) 0 s"


section \<open>What may follow what\<close>

text \<open>
  \<open>may_follow x y\<close>: the event \<open>y\<close> may come directly after the event \<open>x\<close>. The
  relation holds the order of the steps of one target and says which failures end the run.
\<close>

fun may_follow :: "event \<Rightarrow> event \<Rightarrow> bool" where
  "may_follow (OpenOrClone d u (Inl e)) y = (y = EmitError e)"
| "may_follow (Fetch n (Inl e)) y = (y = EmitError e)"
| "may_follow (GetReferenceCommit n (Inl e)) y = (y = EmitError e)"
| "may_follow (GetReferenceCommit n (Inr c)) y = (case y of CreateBranch b c' r \<Rightarrow> c' = c | _ \<Rightarrow> False)"
| "may_follow (CreateBranch b c (Inl e)) y = (y = EmitError e)"
| "may_follow (CreateBranch b c (Inr u)) y = (case y of CheckoutBranch b' r \<Rightarrow> b' = b | _ \<Rightarrow> False)"
| "may_follow (CheckoutBranch b (Inl e)) y = (y = EmitError e)"
| "may_follow (CheckoutBranch b (Inr u)) y =
     (case y of ExecFile c a d r \<Rightarrow> True | EmitError e \<Rightarrow> True | _ \<Rightarrow> False)"
| "may_follow (ExecFile c a d (Inr u)) y = (case y of RepoIndex r \<Rightarrow> True | _ \<Rightarrow> False)"
| "may_follow (ExecFile c a d (Inl e)) y =
     (if CONFLICTS_REGEX_test (err_message e) then (case y of RepoIndex r \<Rightarrow> True | _ \<Rightarrow> False)
      else y = EmitError e)"
| "may_follow (RepoIndex (Inl e)) y = (y = EmitError e)"
| "may_follow (RepoIndex (Inr u)) y = (case y of IndexAddAll p r \<Rightarrow> p = ''.'' | _ \<Rightarrow> False)"
| "may_follow (IndexAddAll p (Inl e)) y = (y = EmitError e)"
| "may_follow (IndexAddAll p (Inr u)) y = (case y of IndexWrite r \<Rightarrow> True | _ \<Rightarrow> False)"
| "may_follow (IndexWrite (Inl e)) y = (y = EmitError e)"
| "may_follow (IndexWrite (Inr u)) y = (case y of IndexWriteTree r \<Rightarrow> True | _ \<Rightarrow> False)"
| "may_follow (IndexWriteTree (Inl e)) y = (y = EmitError e)"
| "may_follow (IndexWriteTree (Inr t)) y = (case y of GetHeadCommit r \<Rightarrow> True | _ \<Rightarrow> False)"
| "may_follow (GetHeadCommit r) y = (case y of GetSignature r' \<Rightarrow> True | _ \<Rightarrow> False)"
| "may_follow (GetSignature (Inl e)) y = (case y of EmitError e' \<Rightarrow> True | _ \<Rightarrow> False)"
| "may_follow (GetSignature (Inr s)) y =
     (case y of CreateCommit h a c m t p r \<Rightarrow> True | EmitError e \<Rightarrow> True | _ \<Rightarrow> False)"
| "may_follow (CreateCommit h a c m t p (Inl e)) y = (y = EmitError e)"
| "may_follow (GetRemote n (Inl e)) y = (y = EmitError e)"
| "may_follow (Push refs (Inl e)) y = (y = EmitError e)"
| "may_follow (CleanupTmp p) y = (case y of Send m \<Rightarrow> True | _ \<Rightarrow> False)"
| "may_follow (Send m) y = False"
| "may_follow (EmitError e) y = False"
| "may_follow x y = True"

fun adjacent_ok :: "event list \<Rightarrow> bool" where
  "adjacent_ok (x # y # ys) = (may_follow x y \<and> adjacent_ok (y # ys))"
| "adjacent_ok _ = True"

text \<open>Events after which anything of the next part of the chain may come.\<close>

fun quiet :: "event \<Rightarrow> bool" where
  "quiet (GetInfo g n r) = True"
| "quiet (GetCommits g n r) = True"
| "quiet (RequestGet u r) = True"
| "quiet (TmpFile p r) = True"
| "quiet (WriteFile p d r) = True"
| "quiet (OpenOrClone d u (Inr x)) = True"
| "quiet (Fetch n (Inr x)) = True"
| "quiet (CreateCommit h a c m t p (Inr x)) = True"
| "quiet (GetRemote n (Inr x)) = True"
| "quiet (Push refs (Inr x)) = True"
| "quiet (CreateIssue g p r) = True"
| "quiet (CreatePullRequest g p r) = True"
| "quiet _ = False"

definition settled_trace :: "event list \<Rightarrow> bool" where
  "settled_trace tr = (adjacent_ok tr \<and> (tr \<noteq> [] \<longrightarrow> quiet (last tr)))"

definition ended :: "event list \<Rightarrow> bool" where
  "ended tr = (tr \<noteq> [] \<and> (case last tr of Send m \<Rightarrow> True | EmitError e \<Rightarrow> True | _ \<Rightarrow> False))"


section \<open>What a run has done\<close>

fun committed_of :: "event \<Rightarrow> string list" where
  "committed_of (CreateCommit h a c m t p (Inr x)) = [m]"
| "committed_of _ = []"

definition committed :: "event list \<Rightarrow> string list" where
  "committed tr = concat (map committed_of tr)"

fun issued_of :: "event \<Rightarrow> (issue_params \<times> (err + nat)) list" where
  "issued_of (CreateIssue g p r) = [(p, r)]"
| "issued_of _ = []"

definition issued :: "event list \<Rightarrow> (issue_params \<times> (err + nat)) list" where
  "issued tr = concat (map issued_of tr)"

fun requested_of :: "event \<Rightarrow> pr_params list" where
  "requested_of (CreatePullRequest g p r) = [p]"
| "requested_of _ = []"

definition pull_requests :: "event list \<Rightarrow> pr_params list" where
  "pull_requests tr = concat (map requested_of tr)"

text \<open>An answer of \<open>git apply\<close> that reports a conflict.\<close>

definition is_conflict :: "err + unit \<Rightarrow> bool" where
  "is_conflict r = (case r of Inl e \<Rightarrow> CONFLICTS_REGEX_test (err_message e) | Inr u \<Rightarrow> False)"

text \<open>The targets, of those processed, whose \<open>git apply\<close> reported a conflict.\<close>

definition conflicted :: "string list \<Rightarrow> (err + unit) list \<Rightarrow> string list" where
  "conflicted branches rs = map fst (filter (\<lambda>(target, r). is_conflict r) (zip branches rs))"

definition commit_messages :: "string \<Rightarrow> string \<Rightarrow> string list \<Rightarrow> string list" where
  "commit_messages number base_message branches =
     map (\<lambda>target. commitMessage number target base_message) branches"

definition pushed_ok :: "string \<Rightarrow> string \<Rightarrow> string list \<Rightarrow> (string list \<times> (err + unit)) list" where
  "pushed_ok number original branches =
     map (\<lambda>target. (refspec (backportBranchName number original target), Inr ())) branches"

text \<open>
  What holds where an event occurs in a run, \<open>pre\<close> being the events before it: the
  commit of a target ends the steps of that target, a push comes when every target is
  committed and the pushes before it have succeeded, an issue is created when every
  branch is pushed, and a pull request belongs to an issue that has been created.
\<close>

definition occurrence_ok ::
  "world \<Rightarrow> string \<Rightarrow> string \<Rightarrow> string list \<Rightarrow> pr_info \<Rightarrow> commit_entry list \<Rightarrow> event list \<Rightarrow> event \<Rightarrow> bool" where
  "occurrence_ok w repo number branches info commits pre x =
     (case x of
        CreateCommit h a c m t p r \<Rightarrow>
          (\<exists>pre' target c0 path cwd ra parent sg.
              pre = pre' @ [GetReferenceCommit (''origin/'' @ target) (Inr c0),
                            CreateBranch (backportBranchName number (head_ref info) target) c0 (Inr ()),
                            CheckoutBranch (backportBranchName number (head_ref info) target) (Inr ()),
                            ExecFile ''git'' [''apply'', ''--3way'', path] cwd ra,
                            RepoIndex (Inr ()), IndexAddAll ''.'' (Inr ()), IndexWrite (Inr ()),
                            IndexWriteTree (Inr t), GetHeadCommit (Inr parent), GetSignature (Inr sg)]
              \<and> target \<in> set branches \<and> getSignature w = Inr sg
              \<and> h = ''HEAD'' \<and> a = sg \<and> c = sg \<and> p = [parent]
              \<and> m = commitMessage number target (baseCommitMessage commits))
      | Push refs r \<Rightarrow>
          committed pre = commit_messages number (baseCommitMessage commits) branches
          \<and> (\<exists>done target rest.
                branches = done @ target # rest
                \<and> pushes pre = pushed_ok number (head_ref info) done
                \<and> refs = refspec (backportBranchName number (head_ref info) target))
      | CreateIssue g p r \<Rightarrow>
          g = repo
          \<and> pushes pre = pushed_ok number (head_ref info) branches
          \<and> length (apply_results pre) = length branches
          \<and> (\<exists>done target rest.
                branches = done @ target # rest
                \<and> map fst (issued pre) =
                    map (issue_request number (baseCommitMessage commits) info
                           (conflicted branches (apply_results pre))) done
                \<and> p = issue_request number (baseCommitMessage commits) info
                         (conflicted branches (apply_results pre)) target)
      | CreatePullRequest g p r \<Rightarrow>
          g = repo
          \<and> map fst (issued pre) =
                map (issue_request number (baseCommitMessage commits) info
                       (conflicted branches (apply_results pre))) branches
          \<and> (\<exists>target n.
                (target, Inr n) \<in> set (zip branches (map snd (issued pre)))
                \<and> p = pull_request number (head_ref info) target n)
      | _ \<Rightarrow> True)"

fun occ_from :: "(event list \<Rightarrow> event \<Rightarrow> bool) \<Rightarrow> event list \<Rightarrow> event list \<Rightarrow> bool" where
  "occ_from \<phi> pre [] = True"
| "occ_from \<phi> pre (x # xs) = (\<phi> pre x \<and> occ_from \<phi> (pre @ [x]) xs)"

text \<open>What holds of the issues and pull requests of every run, whatever its end.\<close>

definition published_ok ::
  "string \<Rightarrow> string list \<Rightarrow> pr_info \<Rightarrow> commit_entry list \<Rightarrow> event list \<Rightarrow> bool" where
  "published_ok number branches info commits tr =
     ((issued tr = [] \<or>
        map fst (issued tr) =
          map (issue_request number (baseCommitMessage commits) info
                 (conflicted branches (apply_results tr))) branches)
      \<and> pull_requests tr =
          concat (map (\<lambda>(target, r). case r of Inl e \<Rightarrow> []
                         | Inr n \<Rightarrow> [pull_request number (head_ref info) target n])
                      (zip branches (map snd (issued tr)))))"

text \<open>What a run that ends with the report of success has done.\<close>

definition completed ::
  "string \<Rightarrow> string list \<Rightarrow> pr_info \<Rightarrow> commit_entry list \<Rightarrow> event list \<Rightarrow> bool" where
  "completed number branches info commits tr =
     (committed tr = commit_messages number (baseCommitMessage commits) branches
      \<and> length (apply_results tr) = length branches
      \<and> pushes tr = pushed_ok number (head_ref info) branches
      \<and> (\<exists>ns. length ns = length branches
             \<and> issued tr =
                 map (\<lambda>(target, n).
                        (issue_request number (baseCommitMessage commits) info
                           (conflicted branches (apply_results tr)) target, Inr n))
                     (zip branches ns)
             \<and> pull_requests tr =
                 map (\<lambda>(target, n). pull_request number (head_ref info) target n)
                     (zip branches ns)))"

text \<open>The invariants of the reduction over the targets and of the pushes.\<close>

definition failed_inv ::
  "world \<Rightarrow> string \<Rightarrow> string \<Rightarrow> string list \<Rightarrow> pr_info \<Rightarrow> commit_entry list \<Rightarrow> event list \<Rightarrow> bool" where
  "failed_inv w repo number branches info commits tr =
     (every_occ (occurrence_ok w repo number branches info commits) tr
      \<and> published_ok number branches info commits tr)"

definition loop_inv ::
  "world \<Rightarrow> string \<Rightarrow> string \<Rightarrow> string list \<Rightarrow> pr_info \<Rightarrow> commit_entry list \<Rightarrow> string list \<Rightarrow> state \<Rightarrow> bool" where
  "loop_inv w repo number branches info commits done s =
     (every_occ (occurrence_ok w repo number branches info commits) (trace s)
      \<and> committed (trace s) = commit_messages number (baseCommitMessage commits) done
      \<and> length (apply_results (trace s)) = length done
      \<and> branchesWithConflicts s = conflicted done (apply_results (trace s))
      \<and> pushes (trace s) = [] \<and> issued (trace s) = [] \<and> pull_requests (trace s) = [])"

definition push_inv ::
  "world \<Rightarrow> string \<Rightarrow> string \<Rightarrow> string list \<Rightarrow> pr_info \<Rightarrow> commit_entry list \<Rightarrow> string list \<Rightarrow> state \<Rightarrow> bool" where
  "push_inv w repo number branches info commits done s =
     (every_occ (occurrence_ok w repo number branches info commits) (trace s)
      \<and> committed (trace s) = commit_messages number (baseCommitMessage commits) branches
      \<and> length (apply_results (trace s)) = length branches
      \<and> branchesWithConflicts s = conflicted branches (apply_results (trace s))
      \<and> pushes (trace s) = pushed_ok number (head_ref info) done
      \<and> issued (trace s) = [] \<and> pull_requests (trace s) = [])"

section \<open>Weakest preconditions\<close>

lemma wp_resolve: "wp (resolve x) Q s = Q s (Inr x)"
  by (simp add: wp_def resolve_def)

lemma wp_reject: "wp (reject e) Q s = Q s (Inl e)"
  by (simp add: wp_def reject_def)

lemma wp_then:
  "wp (then_p p f) Q s = wp p (\<lambda>s' r. case r of Inl e \<Rightarrow> Q s' (Inl e) | Inr x \<Rightarrow> wp (f x) Q s') s"
  by (simp add: wp_def then_p_def split: prod.splits sum.splits)

lemma wp_call:
  "wp (call oracle ev) Q s = Q (s\<lparr>trace := trace s @ [ev (oracle (trace s))]\<rparr>) (oracle (trace s))"
  by (simp add: wp_def call_def Let_def)

lemma wp_emit: "wp (emit ev) Q s = Q (s\<lparr>trace := trace s @ [ev]\<rparr>) (Inr ())"
  by (simp add: wp_def emit_def)

lemma wp_started: "wp (started p) Q s = wp p (\<lambda>s' r. Q s' (Inr r)) s"
  by (simp add: wp_def started_def split: prod.splits)

lemma wp_await: "wp (await r) Q s = Q s r"
  by (simp add: wp_def await_def)

lemma wp_all2:
  "wp (all2 p q) Q s =
     wp p (\<lambda>s1 r1. wp q (\<lambda>s2 r2. Q s2 (case r1 of Inl e \<Rightarrow> Inl e
                | Inr a \<Rightarrow> (case r2 of Inl e \<Rightarrow> Inl e | Inr b \<Rightarrow> Inr (a, b)))) s1) s"
  by (simp add: wp_def all2_def split: prod.splits)

lemma wp_get_state: "wp (get_state f) Q s = Q s (Inr (f s))"
  by (simp add: wp_def get_state_def)

lemma wp_modify: "wp (modify f) Q s = Q (f s) (Inr ())"
  by (simp add: wp_def modify_def)

lemma wp_discard:
  "wp (discard p) Q s = wp p (\<lambda>s' r. case r of Inl e \<Rightarrow> Q s' (Inl e) | Inr x \<Rightarrow> Q s' (Inr ())) s"
  by (simp add: discard_def wp_def then_p_def resolve_def split: prod.splits sum.splits)

lemma wp_call_cleanupTmp:
  "wp call_cleanupTmp Q s =
     (case cleanupTmp s of Noop \<Rightarrow> Q s (Inr ())
      | Cleanup path \<Rightarrow> Q (s\<lparr>trace := trace s @ [CleanupTmp path]\<rparr>) (Inr ()))"
  by (simp add: wp_def call_cleanupTmp_def resolve_def emit_def split: cleanup.splits)

lemmas wp_simps = wp_resolve wp_reject wp_then wp_call wp_emit wp_started wp_await wp_all2
  wp_get_state wp_modify wp_discard wp_call_cleanupTmp

lemma wp_mono: "wp p Q s \<Longrightarrow> (\<And>s' r. Q s' r \<Longrightarrow> Q' s' r) \<Longrightarrow> wp p Q' s"
  by (auto simp: wp_def split: prod.splits)

lemma wp_conj: "wp p Q s \<Longrightarrow> wp p Q' s \<Longrightarrow> wp p (\<lambda>s' r. Q s' r \<and> Q' s' r) s"
  by (auto simp: wp_def split: prod.splits)

lemma wp_thenI:
  assumes "wp p Q1 s"
    and "\<And>s' x. Q1 s' (Inr x) \<Longrightarrow> wp (f x) Q s'"
    and "\<And>s' e. Q1 s' (Inl e) \<Longrightarrow> Q s' (Inl e)"
  shows "wp (then_p p f) Q s"
  unfolding wp_then using assms(1)
  by (rule wp_mono) (auto split: sum.splits intro: assms(2,3))

lemma wp_chain:
  assumes init: "wp init (\<lambda>s' r. case r of Inl e \<Rightarrow> F s' e | Inr _ \<Rightarrow> I [] s') s"
    and step: "\<And>done x s'. I done s' \<Longrightarrow> prefix (done @ [x]) xs \<Longrightarrow>
                 wp (step_p x) (\<lambda>s'' r. case r of Inl e \<Rightarrow> F s'' e | Inr _ \<Rightarrow> I (done @ [x]) s'') s'"
  shows "wp (foldl (\<lambda>promise x. then_p promise (\<lambda>_. step_p x)) init xs)
            (\<lambda>s' r. case r of Inl e \<Rightarrow> F s' e | Inr _ \<Rightarrow> I xs s') s"
  using step
proof (induction xs rule: rev_induct)
  case Nil
  show ?case using init by simp
next
  case (snoc x xs)
  have "wp (foldl (\<lambda>promise x. then_p promise (\<lambda>_. step_p x)) init xs)
            (\<lambda>s' r. case r of Inl e \<Rightarrow> F s' e | Inr _ \<Rightarrow> I xs s') s"
    by (rule snoc.IH) (rule snoc.prems, assumption, auto intro: prefix_order.trans)
  then show ?case
    apply (simp add: wp_then)
    apply (erule wp_mono)
    apply (auto split: sum.splits intro: snoc.prems)
    done
qed

section \<open>Kinds of events\<close>

lemma emitsI:
  "(\<And>s. wp p (\<lambda>s' r. \<exists>evs. trace s' = trace s @ evs \<and> list_all K evs) s) \<Longrightarrow> emits K p"
  by (simp add: emits_def)

lemma emitsD:
  "emits K p \<Longrightarrow> p s = (s', r) \<Longrightarrow> \<exists>evs. trace s' = trace s @ evs \<and> list_all K evs"
  unfolding emits_def wp_def by (drule spec [of _ s]) simp

lemma emits_resolve: "emits K (resolve x)"
  by (simp add: emits_def wp_simps)

lemma emits_reject: "emits K (reject e)"
  by (simp add: emits_def wp_simps)

lemma emits_await: "emits K (await r)"
  by (simp add: emits_def wp_simps)

lemma emits_get_state: "emits K (get_state f)"
  by (simp add: emits_def wp_simps)

lemma emits_modify: "(\<And>s. trace (f s) = trace s) \<Longrightarrow> emits K (modify f)"
  by (simp add: emits_def wp_simps)

lemma emits_call: "(\<And>r. K (ev r)) \<Longrightarrow> emits K (call oracle ev)"
  by (simp add: emits_def wp_simps)

lemma emits_emit: "K ev \<Longrightarrow> emits K (emit ev)"
  by (simp add: emits_def wp_simps)

lemma emits_then:
  assumes "emits K p" and "\<And>x. emits K (f x)"
  shows "emits K (then_p p f)"
proof (rule emitsI)
  fix s
  obtain s1 r1 where p: "p s = (s1, r1)" by (cases "p s")
  from emitsD [OF assms(1) p] obtain evs1 where e1: "trace s1 = trace s @ evs1" "list_all K evs1"
    by blast
  show "wp (then_p p f) (\<lambda>s' r. \<exists>evs. trace s' = trace s @ evs \<and> list_all K evs) s"
  proof (cases r1)
    case (Inl e)
    with p e1 show ?thesis by (simp add: wp_def then_p_def)
  next
    case (Inr x)
    obtain s2 r2 where f: "f x s1 = (s2, r2)" by (cases "f x s1")
    from emitsD [OF assms(2) f] obtain evs2 where "trace s2 = trace s1 @ evs2" "list_all K evs2"
      by blast
    with p f Inr e1 show ?thesis by (simp add: wp_def then_p_def)
  qed
qed

lemma emits_started: "emits K p \<Longrightarrow> emits K (started p)"
  by (simp add: emits_def wp_simps)

lemma emits_discard: "emits K p \<Longrightarrow> emits K (discard p)"
  unfolding discard_def by (intro emits_then emits_resolve)

lemma emits_all2:
  assumes "emits K p" and "emits K q"
  shows "emits K (all2 p q)"
proof (rule emitsI)
  fix s
  obtain s1 r1 where p: "p s = (s1, r1)" by (cases "p s")
  obtain s2 r2 where q: "q s1 = (s2, r2)" by (cases "q s1")
  from emitsD [OF assms(1) p] obtain evs1 where e1: "trace s1 = trace s @ evs1" "list_all K evs1"
    by blast
  from emitsD [OF assms(2) q] obtain evs2 where e2: "trace s2 = trace s1 @ evs2" "list_all K evs2"
    by blast
  from p q e1 e2 show "wp (all2 p q) (\<lambda>s' r. \<exists>evs. trace s' = trace s @ evs \<and> list_all K evs) s"
    by (simp add: wp_def all2_def)
qed

lemma emits_chain:
  "emits K init \<Longrightarrow> (\<And>x. emits K (step_p x)) \<Longrightarrow>
   emits K (foldl (\<lambda>promise x. then_p promise (\<lambda>_. step_p x)) init xs)"
  by (induction xs rule: rev_induct) (auto intro: emits_then)

lemma emits_frame:
  assumes "emits K p"
    and step: "\<And>tr ev. I tr \<Longrightarrow> K ev \<Longrightarrow> I (tr @ [ev])"
    and "I (trace s)"
  shows "wp p (\<lambda>s' r. I (trace s')) s"
proof -
  have ext: "list_all K evs \<Longrightarrow> I (trace s @ evs)" for evs
  proof (induction evs rule: rev_induct)
    case Nil
    show ?case using assms(3) by simp
  next
    case (snoc x xs)
    then show ?case using step [of "trace s @ xs" x] by simp
  qed
  from assms(1) have "wp p (\<lambda>s' r. \<exists>evs. trace s' = trace s @ evs \<and> list_all K evs) s"
    by (simp add: emits_def)
  then show ?thesis
    by (rule wp_mono) (auto intro: ext)
qed

lemma emits_keeps:
  assumes "emits K p"
    and "\<And>ev. K ev \<Longrightarrow> obs [ev] = []"
    and "\<And>xs ys. obs (xs @ ys) = obs xs @ obs ys"
  shows "wp p (\<lambda>s' r. obs (trace s') = obs (trace s)) s"
  by (rule emits_frame [OF assms(1), where I = "\<lambda>tr. obs tr = obs (trace s)"])
     (simp_all add: assms(2,3))

lemma every_occ_Nil: "every_occ \<phi> []"
  by (simp add: every_occ_def)

lemma every_occ_snoc: "every_occ \<phi> (tr @ [x]) = (every_occ \<phi> tr \<and> \<phi> tr x)"
proof
  assume h: "every_occ \<phi> (tr @ [x])"
  have "\<phi> tr x" using h by (simp add: every_occ_def)
  moreover have "every_occ \<phi> tr"
    unfolding every_occ_def
  proof (intro allI impI)
    fix pre y post assume "tr = pre @ y # post"
    then have "tr @ [x] = pre @ y # (post @ [x])" by simp
    with h show "\<phi> pre y" unfolding every_occ_def by blast
  qed
  ultimately show "every_occ \<phi> tr \<and> \<phi> tr x" by simp
next
  assume h: "every_occ \<phi> tr \<and> \<phi> tr x"
  show "every_occ \<phi> (tr @ [x])"
    unfolding every_occ_def
  proof (intro allI impI)
    fix pre y post assume eq: "tr @ [x] = pre @ y # post"
    show "\<phi> pre y"
    proof (cases post rule: rev_cases)
      case Nil
      with eq h show ?thesis by simp
    next
      case (snoc post' z)
      with eq have "tr = pre @ y # post'" by simp
      with h show ?thesis unfolding every_occ_def by blast
    qed
  qed
qed


section \<open>The events of each part of the chain\<close>

lemma emits_diffFile: "emits diff_event (diffFile w info)"
  unfolding diffFile_def
  by (intro emits_then emits_call emits_modify emits_resolve) simp_all

lemma emits_apply_patch: "emits target_event (apply_patch w cwd target path)"
  unfolding apply_patch_def
proof (intro emits_then emits_started emits_call)
  fix r :: "err + unit"
  show "emits target_event (case r of Inl err \<Rightarrow>
           if \<not> CONFLICTS_REGEX_test (err_message err) then reject err
           else modify (\<lambda>s. s\<lparr>branchesWithConflicts := branchesWithConflicts s @ [target]\<rparr>)
         | Inr x \<Rightarrow> resolve ())"
    by (cases r) (auto intro: emits_resolve emits_reject emits_modify)
qed simp

lemma emits_commit_all: "emits target_event (commit_all w commit_message)"
  unfolding commit_all_def
  by (intro emits_then emits_call emits_all2)
     (auto intro!: emits_call)

lemma emits_backport_target:
  "emits target_event (backport_target w number original base_message cwd diff target)"
  unfolding backport_target_def Let_def
  by (intro emits_then emits_call emits_await emits_apply_patch emits_commit_all)
     simp_all

lemma emits_push_branches: "emits push_event (push_branches w number original branches)"
  unfolding push_branches_def
  by (intro emits_then emits_call emits_chain emits_resolve) simp_all

lemma emits_create_issues:
  "emits publish_event (create_issues w repo number base_message info branches)"
  by (induction branches)
     (auto intro!: emits_then emits_started emits_call emits_resolve emits_get_state
           )

lemma emits_create_pull_requests:
  "emits publish_event (create_pull_requests w repo number original issues)"
  by (induction issues)
     (auto intro!: emits_then emits_started emits_call emits_resolve emits_await
           )

lemma emits_publish: "emits publish_event (publish w repo number base_message info branches)"
  unfolding publish_def
  by (intro emits_then emits_create_issues emits_create_pull_requests emits_await)


section \<open>The paths through one target\<close>

lemma wp_then_callI:
  assumes "\<And>e. Q (s\<lparr>trace := trace s @ [ev (Inl e)]\<rparr>) (Inl e)"
    and "\<And>x. wp (f x) Q (s\<lparr>trace := trace s @ [ev (Inr x)]\<rparr>)"
  shows "wp (then_p (call oracle ev) f) Q s"
  using assms by (simp add: wp_simps split: sum.splits)

lemma wp_then_call_unitI:
  assumes "\<And>e. Q (s\<lparr>trace := trace s @ [ev (Inl e)]\<rparr>) (Inl e)"
    and "wp (f ()) Q (s\<lparr>trace := trace s @ [ev (Inr ())]\<rparr>)"
  shows "wp (then_p (call oracle ev) f) Q s"
  using assms by (simp add: wp_simps split: sum.splits)

lemma wp_then_awaitI:
  assumes "\<And>e. r = Inl e \<Longrightarrow> Q s (Inl e)"
    and "\<And>x. r = Inr x \<Longrightarrow> wp (f x) Q s"
  shows "wp (then_p (await r) f) Q s"
  using assms by (simp add: wp_simps split: sum.splits)

lemma wp_apply_patchI:
  assumes "\<And>u. execFile w ''git'' [''apply'', ''--3way'', path] cwd (trace s) = Inr u \<Longrightarrow>
             Q (s\<lparr>trace := trace s @ [ExecFile ''git'' [''apply'', ''--3way'', path] cwd (Inr u)]\<rparr>) (Inr ())"
    and "\<And>e. execFile w ''git'' [''apply'', ''--3way'', path] cwd (trace s) = Inl e \<Longrightarrow>
             \<not> CONFLICTS_REGEX_test (err_message e) \<Longrightarrow>
             Q (s\<lparr>trace := trace s @ [ExecFile ''git'' [''apply'', ''--3way'', path] cwd (Inl e)]\<rparr>) (Inl e)"
    and "\<And>e. execFile w ''git'' [''apply'', ''--3way'', path] cwd (trace s) = Inl e \<Longrightarrow>
             CONFLICTS_REGEX_test (err_message e) \<Longrightarrow>
             Q (s\<lparr>trace := trace s @ [ExecFile ''git'' [''apply'', ''--3way'', path] cwd (Inl e)],
                  branchesWithConflicts := branchesWithConflicts s @ [target]\<rparr>) (Inr ())"
  shows "wp (apply_patch w cwd target path) Q s"
  using assms by (simp add: apply_patch_def wp_simps split: sum.splits)

lemma wp_then_apply_patchI:
  assumes "\<And>e. \<not> CONFLICTS_REGEX_test (err_message e) \<Longrightarrow>
             Q (s\<lparr>trace := trace s @ [ExecFile ''git'' [''apply'', ''--3way'', path] cwd (Inl e)]\<rparr>) (Inl e)"
    and "wp (f ()) Q (s\<lparr>trace := trace s @ [ExecFile ''git'' [''apply'', ''--3way'', path] cwd (Inr ())]\<rparr>)"
    and "\<And>e. CONFLICTS_REGEX_test (err_message e) \<Longrightarrow>
             wp (f ()) Q (s\<lparr>trace := trace s @ [ExecFile ''git'' [''apply'', ''--3way'', path] cwd (Inl e)],
                           branchesWithConflicts := branchesWithConflicts s @ [target]\<rparr>)"
  shows "wp (then_p (apply_patch w cwd target path) f) Q s"
  unfolding wp_then
  by (rule wp_apply_patchI) (simp_all add: assms)

lemma then_p_assoc: "then_p (then_p p f) g = then_p p (\<lambda>x. then_p (f x) g)"
  by (auto simp: then_p_def fun_eq_iff split: prod.splits sum.splits)

lemma wp_then_all2_callI:
  assumes "\<And>e r2. Q (s\<lparr>trace := trace s @ [ev1 (Inl e), ev2 r2]\<rparr>) (Inl e)"
    and "\<And>x e. Q (s\<lparr>trace := trace s @ [ev1 (Inr x), ev2 (Inl e)]\<rparr>) (Inl e)"
    and "\<And>x y. o2 (trace s @ [ev1 (Inr x)]) = Inr y \<Longrightarrow>
           wp (f (x, y)) Q (s\<lparr>trace := trace s @ [ev1 (Inr x), ev2 (Inr y)]\<rparr>)"
  shows "wp (then_p (all2 (call o1 ev1) (call o2 ev2)) f) Q s"
  using assms by (simp add: wp_simps split: sum.splits)

lemma commit_all_wpI:
  assumes q1: "\<And>e. Q (s\<lparr>trace := trace s @ [RepoIndex (Inl e)]\<rparr>) (Inl e)"
    and q2: "\<And>e. Q (s\<lparr>trace := trace s @ [RepoIndex (Inr ()), IndexAddAll ''.'' (Inl e)]\<rparr>) (Inl e)"
    and q3: "\<And>e. Q (s\<lparr>trace := trace s @ [RepoIndex (Inr ()), IndexAddAll ''.'' (Inr ()),
                     IndexWrite (Inl e)]\<rparr>) (Inl e)"
    and q4: "\<And>e. Q (s\<lparr>trace := trace s @ [RepoIndex (Inr ()), IndexAddAll ''.'' (Inr ()),
                     IndexWrite (Inr ()), IndexWriteTree (Inl e)]\<rparr>) (Inl e)"
    and q5: "\<And>tree e r. Q (s\<lparr>trace := trace s @ [RepoIndex (Inr ()), IndexAddAll ''.'' (Inr ()),
                     IndexWrite (Inr ()), IndexWriteTree (Inr tree), GetHeadCommit (Inl e),
                     GetSignature r]\<rparr>) (Inl e)"
    and q6: "\<And>tree parent e. Q (s\<lparr>trace := trace s @ [RepoIndex (Inr ()), IndexAddAll ''.'' (Inr ()),
                     IndexWrite (Inr ()), IndexWriteTree (Inr tree), GetHeadCommit (Inr parent),
                     GetSignature (Inl e)]\<rparr>) (Inl e)"
    and q7: "\<And>tree parent sg r. getSignature w = Inr sg \<Longrightarrow>
               Q (s\<lparr>trace := trace s @ [RepoIndex (Inr ()), IndexAddAll ''.'' (Inr ()),
                     IndexWrite (Inr ()), IndexWriteTree (Inr tree), GetHeadCommit (Inr parent),
                     GetSignature (Inr sg),
                     CreateCommit ''HEAD'' sg sg msg tree [parent] r]\<rparr>) r"
  shows "wp (commit_all w msg) Q s"
  unfolding commit_all_def then_p_assoc
  apply (rule wp_then_callI, simp add: q1)
  apply (rule wp_then_callI, simp add: q2)
  apply (rule wp_then_callI, simp add: q3)
  apply (rule wp_then_callI, simp add: q4)
  apply (rule wp_then_all2_callI, simp add: q5, simp add: q6)
  apply (simp add: wp_call q7)
  done

lemma backport_target_wpI:
  fixes w number original base_message cwd target
  defines "bb \<equiv> backportBranchName number original target"
    and "ref \<equiv> ''origin/'' @ target"
  assumes p1: "\<And>e. Q (s\<lparr>trace := trace s @ [GetReferenceCommit ref (Inl e)]\<rparr>) (Inl e)"
    and p2: "\<And>c e. Q (s\<lparr>trace := trace s @ [GetReferenceCommit ref (Inr c), CreateBranch bb c (Inl e)]\<rparr>) (Inl e)"
    and p3: "\<And>c e. Q (s\<lparr>trace := trace s @ [GetReferenceCommit ref (Inr c), CreateBranch bb c (Inr ()),
                 CheckoutBranch bb (Inl e)]\<rparr>) (Inl e)"
    and p4: "\<And>c e. diff = Inl e \<Longrightarrow>
               Q (s\<lparr>trace := trace s @ [GetReferenceCommit ref (Inr c), CreateBranch bb c (Inr ()),
                 CheckoutBranch bb (Inr ())]\<rparr>) (Inl e)"
    and p5: "\<And>c path e. diff = Inr path \<Longrightarrow> \<not> CONFLICTS_REGEX_test (err_message e) \<Longrightarrow>
               Q (s\<lparr>trace := trace s @ [GetReferenceCommit ref (Inr c), CreateBranch bb c (Inr ()),
                 CheckoutBranch bb (Inr ()),
                 ExecFile ''git'' [''apply'', ''--3way'', path] cwd (Inl e)]\<rparr>) (Inl e)"
    and p6: "\<And>c path. diff = Inr path \<Longrightarrow>
               wp (commit_all w (commitMessage number target base_message)) Q
                 (s\<lparr>trace := trace s @ [GetReferenceCommit ref (Inr c), CreateBranch bb c (Inr ()),
                    CheckoutBranch bb (Inr ()),
                    ExecFile ''git'' [''apply'', ''--3way'', path] cwd (Inr ())]\<rparr>)"
    and p7: "\<And>c path e. diff = Inr path \<Longrightarrow> CONFLICTS_REGEX_test (err_message e) \<Longrightarrow>
               wp (commit_all w (commitMessage number target base_message)) Q
                 (s\<lparr>trace := trace s @ [GetReferenceCommit ref (Inr c), CreateBranch bb c (Inr ()),
                    CheckoutBranch bb (Inr ()),
                    ExecFile ''git'' [''apply'', ''--3way'', path] cwd (Inl e)],
                    branchesWithConflicts := branchesWithConflicts s @ [target]\<rparr>)"
  shows "wp (backport_target w number original base_message cwd diff target) Q s"
  unfolding backport_target_def Let_def
  apply (fold bb_def ref_def)
  apply (rule wp_then_callI, simp add: p1)
  apply (rule wp_then_callI, simp add: p2)
  apply (rule wp_then_callI, simp add: p3)
  apply (rule wp_then_awaitI, simp add: p4)
  apply (rule wp_then_apply_patchI, simp add: p5)
   apply (simp add: p6)
  apply (simp add: p7)
  done


section \<open>The paths through the whole chain\<close>

lemma backport_branches_wpI:
  assumes fetch_failed: "\<And>e. F (s\<lparr>trace := trace s @ [Fetch ''origin'' (Inl e)]\<rparr>) e"
    and fetched: "I [] (s\<lparr>trace := trace s @ [Fetch ''origin'' (Inr ())]\<rparr>)"
    and step: "\<And>done target s'. I done s' \<Longrightarrow> prefix (done @ [target]) branches \<Longrightarrow>
                 wp (backport_target w number original base_message cwd diff target)
                    (\<lambda>s'' r. case r of Inl e \<Rightarrow> F s'' e | Inr _ \<Rightarrow> I (done @ [target]) s'') s'"
  shows "wp (backport_branches w number original base_message cwd diff branches)
            (\<lambda>s' r. case r of Inl e \<Rightarrow> F s' e | Inr _ \<Rightarrow> I branches s') s"
  unfolding backport_branches_def
proof (rule wp_chain)
  show "wp (call (repo_fetch w ''origin'') (Fetch ''origin''))
          (\<lambda>s' r. case r of Inl e \<Rightarrow> F s' e | Inr _ \<Rightarrow> I [] s') s"
    using fetch_failed fetched by (simp add: wp_call split: sum.splits)
next
  fix "done" target s'
  assume "I done s'" "prefix (done @ [target]) branches"
  then have "wp (backport_target w number original base_message cwd diff target)
                    (\<lambda>s'' r. case r of Inl e \<Rightarrow> F s'' e | Inr _ \<Rightarrow> I (done @ [target]) s'') s'"
    by (rule step)
  then show "wp (discard (backport_target w number original base_message cwd diff target))
                    (\<lambda>s'' r. case r of Inl e \<Rightarrow> F s'' e | Inr _ \<Rightarrow> I (done @ [target]) s'') s'"
    unfolding wp_discard by (rule wp_mono) (simp split: sum.splits)
qed

lemma push_chain_wp:
  assumes start: "I [] s"
    and step_failed: "\<And>done target s' e. I done s' \<Longrightarrow> prefix (done @ [target]) branches \<Longrightarrow>
                 F (s'\<lparr>trace := trace s' @ [Push (refspec (f target)) (Inl e)]\<rparr>) e"
    and step: "\<And>done target s'. I done s' \<Longrightarrow> prefix (done @ [target]) branches \<Longrightarrow>
                 I (done @ [target]) (s'\<lparr>trace := trace s' @ [Push (refspec (f target)) (Inr ())]\<rparr>)"
  shows "wp (foldl (\<lambda>promise refs. then_p promise (\<lambda>_. call (push w refs) (Push refs)))
               (resolve ()) (map refspec (map f branches)))
            (\<lambda>s' r. case r of Inl e \<Rightarrow> F s' e | Inr _ \<Rightarrow> I branches s') s"
  using step_failed step
proof (induction branches rule: rev_induct)
  case Nil
  show ?case using start by (simp add: wp_resolve)
next
  case (snoc target branches)
  have "wp (foldl (\<lambda>promise refs. then_p promise (\<lambda>_. call (push w refs) (Push refs)))
               (resolve ()) (map refspec (map f branches)))
            (\<lambda>s' r. case r of Inl e \<Rightarrow> F s' e | Inr _ \<Rightarrow> I branches s') s"
  proof (rule snoc.IH)
    fix "done" t s' e
    assume "I done s'" "prefix (done @ [t]) branches"
    then show "F (s'\<lparr>trace := trace s' @ [Push (refspec (f t)) (Inl e)]\<rparr>) e"
      by (intro snoc.prems(1)) (auto intro: prefix_order.trans)
  next
    fix "done" t s'
    assume "I done s'" "prefix (done @ [t]) branches"
    then show "I (done @ [t]) (s'\<lparr>trace := trace s' @ [Push (refspec (f t)) (Inr ())]\<rparr>)"
      by (intro snoc.prems(2)) (auto intro: prefix_order.trans)
  qed
  then show ?case
    apply (simp add: wp_then)
    apply (erule wp_mono)
    apply (auto simp: wp_call split: sum.splits intro: snoc.prems)
    done
qed

lemma push_branches_wpI:
  assumes remote_failed: "\<And>e. F (s\<lparr>trace := trace s @ [GetRemote ''origin'' (Inl e)]\<rparr>) e"
    and start: "I [] (s\<lparr>trace := trace s @ [GetRemote ''origin'' (Inr ())]\<rparr>)"
    and step_failed: "\<And>done target s' e. I done s' \<Longrightarrow> prefix (done @ [target]) branches \<Longrightarrow>
                 F (s'\<lparr>trace := trace s' @
                       [Push (refspec (backportBranchName number original target)) (Inl e)]\<rparr>) e"
    and step: "\<And>done target s'. I done s' \<Longrightarrow> prefix (done @ [target]) branches \<Longrightarrow>
                 I (done @ [target])
                   (s'\<lparr>trace := trace s' @
                       [Push (refspec (backportBranchName number original target)) (Inr ())]\<rparr>)"
  shows "wp (push_branches w number original branches)
            (\<lambda>s' r. case r of Inl e \<Rightarrow> F s' e | Inr _ \<Rightarrow> I branches s') s"
  unfolding push_branches_def
  apply (rule wp_then_call_unitI)
   apply (simp add: remote_failed)
  apply (rule push_chain_wp)
    apply (simp add: start)
   apply (erule (1) step_failed)
  apply (erule (1) step)
  done

lemma create_issues_wp:
  assumes "\<And>rs. length rs = length branches \<Longrightarrow>
             Q (s\<lparr>trace := trace s @ issue_events repo number base_message info
                                     (branchesWithConflicts s) branches rs\<rparr>)
               (Inr (zip branches rs))"
  shows "wp (create_issues w repo number base_message info branches) Q s"
  using assms
proof (induction branches arbitrary: s Q)
  case Nil
  then show ?case by (simp add: wp_resolve issue_events_def)
next
  case (Cons target rest)
  let ?r = "createIssue w repo (issue_request number base_message info (branchesWithConflicts s) target) (trace s)"
  let ?s1 = "s\<lparr>trace := trace s @
     [CreateIssue repo (issue_request number base_message info (branchesWithConflicts s) target) ?r]\<rparr>"
  have "wp (create_issues w repo number base_message info rest)
          (\<lambda>s' x. case x of Inl e \<Rightarrow> Q s' (Inl e) | Inr rs \<Rightarrow> Q s' (Inr ((target, ?r) # rs))) ?s1"
  proof (rule Cons.IH)
    fix rs :: "(err + nat) list"
    assume "length rs = length rest"
    then have "length (?r # rs) = length (target # rest)" by simp
    from Cons.prems [OF this]
    show "case Inr (zip rest rs) of Inl e \<Rightarrow>
            Q (?s1\<lparr>trace := trace ?s1 @ issue_events repo number base_message info
                                     (branchesWithConflicts ?s1) rest rs\<rparr>) (Inl e)
          | Inr rs' \<Rightarrow> Q (?s1\<lparr>trace := trace ?s1 @ issue_events repo number base_message info
                                     (branchesWithConflicts ?s1) rest rs\<rparr>) (Inr ((target, ?r) # rs'))"
      by (simp add: issue_events_def)
  qed
  then show ?case
    by (simp add: wp_simps)
qed

lemma create_pull_requests_wp:
  assumes "\<And>qs. length qs = length issues \<Longrightarrow>
             Q (s\<lparr>trace := trace s @ pr_events repo number original issues qs\<rparr>)
               (Inr (settled issues qs))"
  shows "wp (create_pull_requests w repo number original issues) Q s"
  using assms
proof (induction issues arbitrary: s Q)
  case Nil
  then show ?case by (simp add: wp_resolve pr_events_def settled_def)
next
  case (Cons tr rest)
  obtain target r where tr: "tr = (target, r)" by (cases tr)
  show ?case
  proof (cases r)
    case (Inl e)
    have "wp (create_pull_requests w repo number original rest)
            (\<lambda>s' x. case x of Inl e' \<Rightarrow> Q s' (Inl e') | Inr xs \<Rightarrow> Q s' (Inr (Inl e # xs))) s"
    proof (rule Cons.IH)
      fix qs :: "(err + unit) list"
      assume "length qs = length rest"
      then have "length (Inr () # qs) = length (tr # rest)" by simp
      from Cons.prems [OF this]
      show "case Inr (settled rest qs) of Inl e' \<Rightarrow>
              Q (s\<lparr>trace := trace s @ pr_events repo number original rest qs\<rparr>) (Inl e')
            | Inr xs \<Rightarrow> Q (s\<lparr>trace := trace s @ pr_events repo number original rest qs\<rparr>)
                          (Inr (Inl e # xs))"
        by (simp add: pr_events_def settled_def tr Inl)
    qed
    then show ?thesis
      by (simp add: wp_simps tr Inl)
  next
    case (Inr n)
    let ?q = "createPullRequest w repo (pull_request number original target n) (trace s)"
    let ?s1 = "s\<lparr>trace := trace s @ [CreatePullRequest repo (pull_request number original target n) ?q]\<rparr>"
    have "wp (create_pull_requests w repo number original rest)
            (\<lambda>s' x. case x of Inl e' \<Rightarrow> Q s' (Inl e') | Inr xs \<Rightarrow> Q s' (Inr (?q # xs))) ?s1"
    proof (rule Cons.IH)
      fix qs :: "(err + unit) list"
      assume "length qs = length rest"
      then have "length (?q # qs) = length (tr # rest)" by simp
      from Cons.prems [OF this]
      show "case Inr (settled rest qs) of Inl e' \<Rightarrow>
              Q (?s1\<lparr>trace := trace ?s1 @ pr_events repo number original rest qs\<rparr>) (Inl e')
            | Inr xs \<Rightarrow> Q (?s1\<lparr>trace := trace ?s1 @ pr_events repo number original rest qs\<rparr>)
                          (Inr (?q # xs))"
        by (simp add: pr_events_def settled_def tr Inr)
    qed
    then show ?thesis
      by (simp add: wp_simps tr Inr)
  qed
qed

lemma publish_wpI:
  assumes "\<And>rs qs. length rs = length branches \<Longrightarrow> length qs = length branches \<Longrightarrow>
             Q (s\<lparr>trace := trace s
                     @ issue_events repo number base_message info (branchesWithConflicts s) branches rs
                     @ pr_events repo number (head_ref info) (zip branches rs) qs\<rparr>)
               (all_settled (settled (zip branches rs) qs))"
  shows "wp (publish w repo number base_message info branches) Q s"
  unfolding publish_def wp_then
  apply (rule create_issues_wp)
  apply simp
  apply (rule create_pull_requests_wp)
  apply (simp add: wp_await assms)
  done

lemma diffFile_wpI:
  assumes "\<And>e. Q (s\<lparr>trace := trace s @ [RequestGet (diff_url info) (Inl e)]\<rparr>) (Inl e)"
    and "\<And>d e. Q (s\<lparr>trace := trace s @ [RequestGet (diff_url info) (Inr d),
                      TmpFile ''jasper-'' (Inl e)]\<rparr>) (Inl e)"
    and "\<And>d path e. Q (s\<lparr>cleanupTmp := Cleanup path,
                    trace := trace s @ [RequestGet (diff_url info) (Inr d),
                      TmpFile ''jasper-'' (Inr path), WriteFile path d (Inl e)]\<rparr>) (Inl e)"
    and "\<And>d path. Q (s\<lparr>cleanupTmp := Cleanup path,
                    trace := trace s @ [RequestGet (diff_url info) (Inr d),
                      TmpFile ''jasper-'' (Inr path), WriteFile path d (Inr ())]\<rparr>) (Inr path)"
  shows "wp (diffFile w info) Q s"
  unfolding diffFile_def
  using assms by (simp add: wp_simps split: sum.splits)

lemma backport_steps_wpI:
  assumes into_base: "base_ref info \<in> set branches \<Longrightarrow>
        F s (Error ''Cannot backport into original PR target branch'')"
    and unmerged: "base_ref info \<notin> set branches \<Longrightarrow> \<not> merged info \<Longrightarrow>
        F s (Error ''Cannot backport unmerged pull requests'')"
    and download: "base_ref info \<notin> set branches \<Longrightarrow> merged info \<Longrightarrow>
        wp (diffFile w info) A s"
    and clone_failed: "\<And>d s' e. A s' d \<Longrightarrow>
        F (s'\<lparr>trace := trace s' @ [OpenOrClone (repoDir w repo) (base_repo_ssh_url info) (Inl e)]\<rparr>) e"
    and branches: "\<And>d s'. A s' d \<Longrightarrow>
        wp (backport_branches w number (head_ref info) (baseCommitMessage commits) (repoDir w repo) d branches)
           (\<lambda>s'' r. case r of Inl e \<Rightarrow> F s'' e | Inr _ \<Rightarrow> C s'')
           (s'\<lparr>trace := trace s' @ [OpenOrClone (repoDir w repo) (base_repo_ssh_url info) (Inr ())]\<rparr>)"
    and pushes: "\<And>s'. C s' \<Longrightarrow>
        wp (push_branches w number (head_ref info) branches)
           (\<lambda>s'' r. case r of Inl e \<Rightarrow> F s'' e | Inr _ \<Rightarrow> D s'') s'"
    and publishing: "\<And>s'. D s' \<Longrightarrow>
        wp (publish w repo number (baseCommitMessage commits) info branches)
           (\<lambda>s'' r. case r of Inl e \<Rightarrow> F s'' e | Inr _ \<Rightarrow> E s'') s'"
    and finish: "\<And>s'. E s' \<Longrightarrow>
        (case cleanupTmp s' of
           Noop \<Rightarrow> G (s'\<lparr>trace := trace s' @ [Send (report number branches)]\<rparr>)
         | Cleanup path \<Rightarrow>
             G (s'\<lparr>trace := trace s' @ [CleanupTmp path, Send (report number branches)]\<rparr>))"
  shows "wp (backport_steps w repo number branches info commits)
           (\<lambda>s' r. case r of Inl e \<Rightarrow> F s' e | Inr _ \<Rightarrow> G s') s"
  unfolding backport_steps_def
proof (rule wp_thenI [where ?Q1.0 = "\<lambda>s' r. (\<forall>e. r = Inl e \<longrightarrow> F s' e)
          \<and> (\<forall>x. r = Inr x \<longrightarrow> s' = s \<and> base_ref info \<notin> set branches \<and> merged info)"])
  show "wp (validate branches info) (\<lambda>s' r. (\<forall>e. r = Inl e \<longrightarrow> F s' e)
          \<and> (\<forall>x. r = Inr x \<longrightarrow> s' = s \<and> base_ref info \<notin> set branches \<and> merged info)) s"
    using into_base unmerged by (simp add: validate_def wp_simps)
next
  fix s' e
  assume "(\<forall>ea. Inl e = Inl ea \<longrightarrow> F s' ea)
          \<and> (\<forall>x. Inl e = Inr x \<longrightarrow> s' = s \<and> base_ref info \<notin> set branches \<and> merged info)"
  then show "case Inl e of Inl e \<Rightarrow> F s' e | Inr x \<Rightarrow> G s'" by simp
next
  let ?Q = "\<lambda>s' r. case r of Inl e \<Rightarrow> F s' e | Inr (_ :: unit) \<Rightarrow> G s'"
  fix s' and x :: unit
  assume "(\<forall>e. Inr x = Inl e \<longrightarrow> F s' e)
          \<and> (\<forall>xa. Inr x = Inr xa \<longrightarrow> s' = s \<and> base_ref info \<notin> set branches \<and> merged info)"
  then have valid: "s' = s" "base_ref info \<notin> set branches" "merged info" by simp_all
  have fin: "wp (then_p call_cleanupTmp (\<lambda>_. emit (Send (report number branches)))) ?Q s5"
    if "E s5" for s5
    using finish [OF that] by (simp add: wp_simps split: cleanup.splits)
  have pub: "wp (then_p (publish w repo number (baseCommitMessage commits) info branches)
                  (\<lambda>_. then_p call_cleanupTmp (\<lambda>_. emit (Send (report number branches))))) ?Q s4"
    if "D s4" for s4
    by (rule wp_thenI [OF publishing [OF that]]) (simp_all add: fin)
  have psh: "wp (then_p (push_branches w number (head_ref info) branches) (\<lambda>_.
                 then_p (publish w repo number (baseCommitMessage commits) info branches)
                  (\<lambda>_. then_p call_cleanupTmp (\<lambda>_. emit (Send (report number branches)))))) ?Q s3"
    if "C s3" for s3
    by (rule wp_thenI [OF pushes [OF that]]) (simp_all add: pub)
  show "wp (then_p (started (diffFile w info))
             (\<lambda>diff. then_p (call (openOrClone w (repoDir w repo) (base_repo_ssh_url info))
                        (OpenOrClone (repoDir w repo) (base_repo_ssh_url info)))
               (\<lambda>_. then_p (backport_branches w number (head_ref info) (baseCommitMessage commits)
                              (repoDir w repo) diff branches)
                 (\<lambda>_. then_p (push_branches w number (head_ref info) branches)
                   (\<lambda>_. then_p (publish w repo number (baseCommitMessage commits) info branches)
                     (\<lambda>_. then_p call_cleanupTmp (\<lambda>_. emit (Send (report number branches)))))))))
          ?Q s'"
    unfolding valid(1) wp_then [of "started (diffFile w info)"] wp_started
    apply (rule wp_mono [OF download [OF valid(2,3)]])
    apply simp
    apply (rule wp_then_call_unitI)
     apply (simp add: clone_failed)
    apply (rule wp_thenI [OF branches])
      apply assumption
     apply (simp add: psh)
    apply simp
    done
qed

lemma backport_wpI:
  assumes "\<And>e rc. getInfo w repo number [] = Inl e \<Longrightarrow>
           P [GetInfo repo number (Inl e), GetCommits repo number rc, EmitError e]"
    and "\<And>info e. getInfo w repo number [] = Inr info \<Longrightarrow>
           P [GetInfo repo number (Inr info), GetCommits repo number (Inl e), EmitError e]"
    and "\<And>info commits. getInfo w repo number [] = Inr info \<Longrightarrow>
           getCommits w repo number [GetInfo repo number (Inr info)] = Inr commits \<Longrightarrow>
           wp (backport_steps w repo number branches info commits)
              (\<lambda>s r. case r of Inl e \<Rightarrow> P (trace s @ [EmitError e]) | Inr _ \<Rightarrow> P (trace s))
              (initial\<lparr>trace := [GetInfo repo number (Inr info), GetCommits repo number (Inr commits)]\<rparr>)"
  shows "P (backport w repo number branches)"
proof -
  let ?main = "then_p (all2 (call (getInfo w repo number) (GetInfo repo number))
                        (call (getCommits w repo number) (GetCommits repo number)))
                  (\<lambda>(info, commits). backport_steps w repo number branches info commits)"
  have "wp ?main (\<lambda>s r. case r of Inl e \<Rightarrow> P (trace s @ [EmitError e]) | Inr _ \<Rightarrow> P (trace s)) initial"
    using assms by (simp add: wp_simps initial_def split: sum.splits)
  then show ?thesis
    by (simp add: backport_def wp_def split: prod.splits sum.splits)
qed

lemma backport_info_wpI:
  assumes "getInfo w repo number [] = Inr info"
    and "\<And>e. P [GetInfo repo number (Inr info), GetCommits repo number (Inl e), EmitError e]"
    and "\<And>commits. getCommits w repo number [GetInfo repo number (Inr info)] = Inr commits \<Longrightarrow>
           wp (backport_steps w repo number branches info commits)
              (\<lambda>s r. case r of Inl e \<Rightarrow> P (trace s @ [EmitError e]) | Inr _ \<Rightarrow> P (trace s))
              (initial\<lparr>trace := [GetInfo repo number (Inr info), GetCommits repo number (Inr commits)]\<rparr>)"
  shows "P (backport w repo number branches)"
  by (rule backport_wpI) (use assms in auto)

section \<open>The order of the events of a run\<close>

lemma adjacent_append:
  "adjacent_ok (xs @ y # ys) =
     (adjacent_ok xs \<and> (xs \<noteq> [] \<longrightarrow> may_follow (last xs) y) \<and> adjacent_ok (y # ys))"
  by (induction xs rule: adjacent_ok.induct) auto

lemma adjacent_split: "adjacent_ok (pre @ x # y # post) \<Longrightarrow> may_follow x y"
  by (simp add: adjacent_append)

lemma quiet_may_follow: "quiet x \<Longrightarrow> may_follow x y"
  by (cases x rule: quiet.cases) simp_all

lemma may_follow_GetSignature_EmitError: "may_follow (GetSignature r) (EmitError e)"
  by (cases r) simp_all

lemma settled_adjacent:
  "settled_trace tr \<Longrightarrow> adjacent_ok (tr @ y # ys) = adjacent_ok (y # ys)"
  by (auto simp: settled_trace_def adjacent_append quiet_may_follow)

lemma settled_settled:
  "settled_trace tr \<Longrightarrow> settled_trace (tr @ y # ys) = settled_trace (y # ys)"
  by (auto simp: settled_trace_def adjacent_append quiet_may_follow)

lemma settled_snoc: "settled_trace tr \<Longrightarrow> quiet ev \<Longrightarrow> settled_trace (tr @ [ev])"
  by (simp add: settled_settled) (simp add: settled_trace_def)

lemma ended_append: "ended (tr @ y # ys) = ended (y # ys)"
  by (simp add: ended_def)

lemma ended_Cons: "ended (x # y # ys) = ended (y # ys)"
  by (simp add: ended_def)

lemma ended_single: "ended [x] = (case x of Send m \<Rightarrow> True | EmitError e \<Rightarrow> True | _ \<Rightarrow> False)"
  by (simp add: ended_def)

lemma settled_Cons: "settled_trace (x # y # ys) = (may_follow x y \<and> settled_trace (y # ys))"
  by (auto simp: settled_trace_def)

lemma settled_single: "settled_trace [x] = quiet x"
  by (simp add: settled_trace_def)

lemmas order_simps = settled_adjacent settled_settled ended_append ended_Cons ended_single
  settled_Cons settled_single may_follow_GetSignature_EmitError

lemma diff_quiet: "diff_event ev \<Longrightarrow> quiet ev"
  by (cases ev) simp_all

lemma publish_quiet: "publish_event ev \<Longrightarrow> quiet ev"
  by (cases ev) simp_all

lemma target_adjacent:
  assumes "settled_trace (trace s)"
  shows "wp (backport_target w number original base_message cwd diff target)
     (\<lambda>s' r. case r of
        Inl e \<Rightarrow> adjacent_ok (trace s' @ [EmitError e])
      | Inr _ \<Rightarrow> settled_trace (trace s')) s"
  using assms
  apply -
  apply (rule backport_target_wpI)
        apply (simp_all add: order_simps)
   apply (rule commit_all_wpI; simp add: order_simps split: sum.splits)
  apply (rule commit_all_wpI; simp add: order_simps split: sum.splits)
  done

lemma run_adjacent:
  "adjacent_ok (backport w repo number branches) \<and> ended (backport w repo number branches)"
  apply (rule backport_wpI)
    apply (simp add: order_simps)
   apply (simp add: order_simps)
  apply (rule backport_steps_wpI [where A = "\<lambda>s d. settled_trace (trace s)"
        and C = "\<lambda>s. settled_trace (trace s)"
        and D = "\<lambda>s. settled_trace (trace s)"
        and E = "\<lambda>s. settled_trace (trace s)"])
  subgoal by (simp add: order_simps)
  subgoal by (simp add: order_simps)
  subgoal
    by (rule emits_frame [OF emits_diffFile, where I = settled_trace])
       (simp_all add: settled_snoc diff_quiet order_simps)
  subgoal by (simp add: order_simps)
  subgoal
    apply (rule backport_branches_wpI [where I = "\<lambda>done s. settled_trace (trace s)"])
    subgoal by (simp add: order_simps)
    subgoal by (simp add: order_simps)
    subgoal
      by (rule wp_mono [OF target_adjacent]) (auto simp: order_simps split: sum.splits)
    done
  subgoal
    by (rule push_branches_wpI [where I = "\<lambda>done s. settled_trace (trace s)"])
       (simp_all add: order_simps)
  subgoal
    by (rule wp_mono [OF emits_frame [OF emits_publish, where I = settled_trace]])
       (auto simp: settled_snoc publish_quiet order_simps split: sum.splits)
  subgoal by (simp add: order_simps split: cleanup.splits)
  done

lemma run_next:
  assumes "backport w repo number branches = pre @ x # post"
    and "\<not> (case x of Send m \<Rightarrow> True | EmitError e \<Rightarrow> True | _ \<Rightarrow> False)"
  obtains y post' where "post = y # post'" and "may_follow x y"
proof (cases post)
  case Nil
  with assms(1) have "ended (pre @ [x])" using run_adjacent [of w repo number branches] by simp
  with assms(2) show ?thesis by (simp add: ended_append ended_single)
next
  case (Cons y post')
  with assms(1) have "adjacent_ok (pre @ x # y # post')"
    using run_adjacent [of w repo number branches] by simp
  then have "may_follow x y" by (rule adjacent_split)
  with Cons show ?thesis by (rule that)
qed

lemma run_stops:
  assumes "backport w repo number branches = pre @ x # EmitError e # post"
  shows "post = []"
proof (cases post)
  case Nil
  then show ?thesis .
next
  case (Cons z post')
  with assms have "adjacent_ok ((pre @ [x]) @ EmitError e # z # post')"
    using run_adjacent [of w repo number branches] by simp
  then have "may_follow (EmitError e) z" by (rule adjacent_split)
  then show ?thesis by simp
qed

lemma run_fails:
  assumes run: "backport w repo number branches = pre @ x # post"
    and only: "\<And>y. may_follow x y \<Longrightarrow> y = EmitError e"
    and going: "\<not> (case x of Send m \<Rightarrow> True | EmitError e \<Rightarrow> True | _ \<Rightarrow> False)"
  shows "post = [EmitError e]"
proof -
  from run going obtain y post' where p: "post = y # post'" and f: "may_follow x y"
    by (rule run_next)
  from f have y: "y = EmitError e" by (rule only)
  with run p have "post' = []"
    by (intro run_stops [of w repo number branches pre x e]) simp
  with p y show ?thesis by simp
qed


section \<open>What has happened before an event\<close>

lemma apply_results_Nil: "apply_results [] = []"
  by (simp add: apply_results_def)

lemma apply_results_Cons: "apply_results (ev # tr) = applied_of ev @ apply_results tr"
  by (simp add: apply_results_def)

lemma apply_results_append: "apply_results (xs @ ys) = apply_results xs @ apply_results ys"
  by (simp add: apply_results_def)

lemma pushes_Nil: "pushes [] = []"
  by (simp add: pushes_def)

lemma pushes_Cons: "pushes (ev # tr) = pushed_of ev @ pushes tr"
  by (simp add: pushes_def)

lemma pushes_append: "pushes (xs @ ys) = pushes xs @ pushes ys"
  by (simp add: pushes_def)

lemma committed_Nil: "committed [] = []"
  by (simp add: committed_def)

lemma committed_Cons: "committed (ev # tr) = committed_of ev @ committed tr"
  by (simp add: committed_def)

lemma committed_append: "committed (xs @ ys) = committed xs @ committed ys"
  by (simp add: committed_def)

lemma issued_Nil: "issued [] = []"
  by (simp add: issued_def)

lemma issued_Cons: "issued (ev # tr) = issued_of ev @ issued tr"
  by (simp add: issued_def)

lemma issued_append: "issued (xs @ ys) = issued xs @ issued ys"
  by (simp add: issued_def)

lemma pull_requests_Nil: "pull_requests [] = []"
  by (simp add: pull_requests_def)

lemma pull_requests_Cons: "pull_requests (ev # tr) = requested_of ev @ pull_requests tr"
  by (simp add: pull_requests_def)

lemma pull_requests_append: "pull_requests (xs @ ys) = pull_requests xs @ pull_requests ys"
  by (simp add: pull_requests_def)

lemmas seen_simps =
  apply_results_Nil apply_results_Cons apply_results_append
  pushes_Nil pushes_Cons pushes_append
  committed_Nil committed_Cons committed_append
  issued_Nil issued_Cons issued_append
  pull_requests_Nil pull_requests_Cons pull_requests_append

lemma every_occ_append: "every_occ \<phi> (tr @ xs) = (every_occ \<phi> tr \<and> occ_from \<phi> tr xs)"
proof (induction xs arbitrary: tr)
  case Nil
  show ?case by simp
next
  case (Cons x xs)
  have "every_occ \<phi> (tr @ x # xs) = every_occ \<phi> ((tr @ [x]) @ xs)" by simp
  also have "\<dots> = (every_occ \<phi> (tr @ [x]) \<and> occ_from \<phi> (tr @ [x]) xs)" by (rule Cons.IH)
  finally show ?case by (auto simp: every_occ_snoc)
qed

lemma occ_from_iff:
  "occ_from \<phi> tr xs = (\<forall>pre x post. xs = pre @ x # post \<longrightarrow> \<phi> (tr @ pre) x)"
proof (induction xs arbitrary: tr)
  case Nil
  show ?case by simp
next
  case (Cons y ys)
  show ?case
  proof
    assume h: "occ_from \<phi> tr (y # ys)"
    show "\<forall>pre x post. y # ys = pre @ x # post \<longrightarrow> \<phi> (tr @ pre) x"
    proof (intro allI impI)
      fix pre x post assume eq: "y # ys = pre @ x # post"
      show "\<phi> (tr @ pre) x"
      proof (cases pre)
        case Nil
        with eq h show ?thesis by simp
      next
        case (Cons z pre')
        with eq have "z = y" "ys = pre' @ x # post" by simp_all
        moreover from h have "occ_from \<phi> (tr @ [y]) ys" by simp
        ultimately have "\<phi> ((tr @ [y]) @ pre') x" using Cons.IH [of "tr @ [y]"] by blast
        with Cons \<open>z = y\<close> show ?thesis by simp
      qed
    qed
  next
    assume h: "\<forall>pre x post. y # ys = pre @ x # post \<longrightarrow> \<phi> (tr @ pre) x"
    have "\<phi> tr y" using h [rule_format, of "[]" y ys] by simp
    moreover have "occ_from \<phi> (tr @ [y]) ys"
      unfolding Cons.IH [of "tr @ [y]"]
    proof (intro allI impI)
      fix pre x post assume "ys = pre @ x # post"
      then have "y # ys = (y # pre) @ x # post" by simp
      from h [rule_format, OF this] show "\<phi> ((tr @ [y]) @ pre) x" by simp
    qed
    ultimately show "occ_from \<phi> tr (y # ys)" by simp
  qed
qed

lemma is_conflict_Inr: "is_conflict (Inr u) = False"
  by (simp add: is_conflict_def)

lemma is_conflict_Inl: "is_conflict (Inl e) = CONFLICTS_REGEX_test (err_message e)"
  by (simp add: is_conflict_def)

lemma conflicted_snoc:
  "length rs = length done \<Longrightarrow>
   conflicted (done @ [target]) (rs @ [r]) =
     conflicted done rs @ (if is_conflict r then [target] else [])"
  by (simp add: conflicted_def)

lemma commit_messages_snoc:
  "commit_messages number base_message (done @ [target]) =
     commit_messages number base_message done @ [commitMessage number target base_message]"
  by (simp add: commit_messages_def)

lemma pushed_ok_snoc:
  "pushed_ok number original (done @ [target]) =
     pushed_ok number original done @ [(refspec (backportBranchName number original target), Inr ())]"
  by (simp add: pushed_ok_def)

lemma published_ok_empty:
  "issued tr = [] \<Longrightarrow> pull_requests tr = [] \<Longrightarrow> published_ok number branches info commits tr"
  by (simp add: published_ok_def)

lemma commit_occurrence:
  assumes "target \<in> set branches" and "getSignature w = Inr sg"
    and "ref = ''origin/'' @ target"
    and "bb = backportBranchName number (head_ref info) target"
    and "m = commitMessage number target (baseCommitMessage commits)"
  shows "occurrence_ok w repo number branches info commits
           (pre @ [GetReferenceCommit ref (Inr c0), CreateBranch bb c0 (Inr ()),
                   CheckoutBranch bb (Inr ()),
                   ExecFile ''git'' [''apply'', ''--3way'', path] cwd ra,
                   RepoIndex (Inr ()), IndexAddAll ''.'' (Inr ()), IndexWrite (Inr ()),
                   IndexWriteTree (Inr t), GetHeadCommit (Inr parent), GetSignature (Inr sg)])
           (CreateCommit ''HEAD'' sg sg m t [parent] r)"
  unfolding occurrence_ok_def using assms by auto

lemma occurrence_other:
  "occurrence_ok w repo number branches info commits pre (GetReferenceCommit n c)"
  "occurrence_ok w repo number branches info commits pre (CreateBranch b c0 u)"
  "occurrence_ok w repo number branches info commits pre (CheckoutBranch b u)"
  "occurrence_ok w repo number branches info commits pre (ExecFile cmd args cwd a)"
  "occurrence_ok w repo number branches info commits pre (RepoIndex u)"
  "occurrence_ok w repo number branches info commits pre (IndexAddAll p u)"
  "occurrence_ok w repo number branches info commits pre (IndexWrite u)"
  "occurrence_ok w repo number branches info commits pre (IndexWriteTree t)"
  "occurrence_ok w repo number branches info commits pre (GetHeadCommit h)"
  "occurrence_ok w repo number branches info commits pre (GetSignature sg)"
  "occurrence_ok w repo number branches info commits pre (GetInfo g n ri)"
  "occurrence_ok w repo number branches info commits pre (GetCommits g n rc)"
  "occurrence_ok w repo number branches info commits pre (RequestGet url d)"
  "occurrence_ok w repo number branches info commits pre (TmpFile pf tp)"
  "occurrence_ok w repo number branches info commits pre (WriteFile tp' d' u)"
  "occurrence_ok w repo number branches info commits pre (OpenOrClone dir url' u)"
  "occurrence_ok w repo number branches info commits pre (Fetch remote u)"
  "occurrence_ok w repo number branches info commits pre (GetRemote remote u)"
  "occurrence_ok w repo number branches info commits pre (CleanupTmp tp2)"
  "occurrence_ok w repo number branches info commits pre (Send msg)"
  "occurrence_ok w repo number branches info commits pre (EmitError e)"
  by (simp_all add: occurrence_ok_def)

lemma target_occurrences:
  assumes inv: "loop_inv w repo number branches info commits done s"
    and pre: "prefix (done @ [target]) branches"
  shows "wp (backport_target w number (head_ref info) (baseCommitMessage commits) cwd diff target)
     (\<lambda>s' r. case r of
        Inl e \<Rightarrow> failed_inv w repo number branches info commits (trace s')
      | Inr _ \<Rightarrow> loop_inv w repo number branches info commits (done @ [target]) s') s"
proof -
  from pre have t: "target \<in> set branches"
    by (auto simp: prefix_def)
  note simps = loop_inv_def failed_inv_def seen_simps every_occ_append occurrence_other
    published_ok_empty conflicted_snoc commit_messages_snoc is_conflict_Inr is_conflict_Inl
  have c: "wp (commit_all w (commitMessage number target (baseCommitMessage commits)))
     (\<lambda>s' r. case r of
        Inl e \<Rightarrow> failed_inv w repo number branches info commits (trace s')
      | Inr _ \<Rightarrow> loop_inv w repo number branches info commits (done @ [target]) s') s1"
    if "trace s1 = trace s @ [GetReferenceCommit (''origin/'' @ target) (Inr c0),
            CreateBranch (backportBranchName number (head_ref info) target) c0 (Inr ()),
            CheckoutBranch (backportBranchName number (head_ref info) target) (Inr ()),
            ExecFile ''git'' [''apply'', ''--3way'', path] cwd ra]"
      and "branchesWithConflicts s1 = conflicted (done @ [target]) (apply_results (trace s) @ [ra])"
    for s1 c0 path ra
    using inv t that
    by (rule_tac commit_all_wpI)
       (auto simp: simps commit_occurrence split: sum.splits)
  show ?thesis
    using inv
    apply -
    apply (rule backport_target_wpI)
          apply (simp_all add: simps)
     apply (rule c; simp add: simps; simp add: simps)
    apply (rule c; simp add: simps; simp add: simps)
    done
qed

section \<open>The invariant of a run\<close>

lemma every_occ_from: "every_occ \<phi> tr = occ_from \<phi> [] tr"
  using every_occ_append [of \<phi> "[]" tr] by (simp add: every_occ_Nil)

lemma push_occurrence:
  assumes "push_inv w repo number branches info commits done s"
    and "prefix (done @ [target]) branches"
  shows "occurrence_ok w repo number branches info commits (trace s)
           (Push (refspec (backportBranchName number (head_ref info) target)) r)"
  using assms by (auto simp: occurrence_ok_def push_inv_def prefix_def)

lemma branches_occurrences:
  assumes "loop_inv w repo number branches info commits [] s"
  shows "wp (backport_branches w number (head_ref info) (baseCommitMessage commits) cwd diff branches)
     (\<lambda>s' r. case r of
        Inl e \<Rightarrow> failed_inv w repo number branches info commits (trace s')
      | Inr _ \<Rightarrow> loop_inv w repo number branches info commits branches s') s"
  apply (rule backport_branches_wpI [where I = "loop_inv w repo number branches info commits"
        and F = "\<lambda>s e. failed_inv w repo number branches info commits (trace s)"])
  subgoal
    using assms
    by (simp add: loop_inv_def failed_inv_def every_occ_snoc occurrence_other seen_simps
        published_ok_empty)
  subgoal
    using assms
    by (simp add: loop_inv_def every_occ_snoc occurrence_other seen_simps)
  subgoal by (rule target_occurrences)
  done

lemma push_occurrences:
  assumes "loop_inv w repo number branches info commits branches s"
  shows "wp (push_branches w number (head_ref info) branches)
     (\<lambda>s' r. case r of
        Inl e \<Rightarrow> failed_inv w repo number branches info commits (trace s')
      | Inr _ \<Rightarrow> push_inv w repo number branches info commits branches s') s"
  apply (rule push_branches_wpI [where I = "push_inv w repo number branches info commits"
        and F = "\<lambda>s e. failed_inv w repo number branches info commits (trace s)"])
  subgoal
    using assms
    by (simp add: loop_inv_def failed_inv_def every_occ_snoc occurrence_other seen_simps
        published_ok_empty)
  subgoal
    using assms
    by (simp add: loop_inv_def push_inv_def every_occ_snoc occurrence_other seen_simps
        pushed_ok_def)
  subgoal for "done" target s' e
    using push_occurrence [of w repo number branches info commits "done" s' target "Inl e"]
    by (simp add: push_inv_def failed_inv_def every_occ_snoc seen_simps published_ok_empty)
  subgoal for "done" target s'
    using push_occurrence [of w repo number branches info commits "done" s' target "Inr ()"]
    by (simp add: push_inv_def every_occ_snoc seen_simps pushed_ok_snoc)
  done

lemma issue_events_simps:
  "issue_events repo number base_message info cf [] rs = []"
  "issue_events repo number base_message info cf bs [] = []"
  "issue_events repo number base_message info cf (t # bs) (r # rs) =
     CreateIssue repo (issue_request number base_message info cf t) r
     # issue_events repo number base_message info cf bs rs"
  by (simp_all add: issue_events_def)

lemma pr_events_simps:
  "pr_events repo number original [] qs = []"
  "pr_events repo number original answered [] = []"
  "pr_events repo number original ((t, Inl e) # answered) (q # qs) =
     pr_events repo number original answered qs"
  "pr_events repo number original ((t, Inr n) # answered) (q # qs) =
     CreatePullRequest repo (pull_request number original t n) q
     # pr_events repo number original answered qs"
  by (simp_all add: pr_events_def)

lemma pr_events_Cons:
  "pr_events repo number original ((t, r) # answered) (q # qs) =
     (case r of Inl e \<Rightarrow> []
      | Inr n \<Rightarrow> [CreatePullRequest repo (pull_request number original t n) q])
     @ pr_events repo number original answered qs"
  by (simp add: pr_events_def)

lemma seen_issue_events:
  "apply_results (issue_events repo number base_message info cf bs rs) = []"
  "pushes (issue_events repo number base_message info cf bs rs) = []"
  "committed (issue_events repo number base_message info cf bs rs) = []"
  "pull_requests (issue_events repo number base_message info cf bs rs) = []"
  "issued (issue_events repo number base_message info cf bs rs) =
     map (\<lambda>(t, r). (issue_request number base_message info cf t, r)) (zip bs rs)"
  by (induction bs rs rule: list_induct2'; simp add: issue_events_simps seen_simps)+

lemma seen_pr_events:
  "apply_results (pr_events repo number original answered qs) = []"
  "pushes (pr_events repo number original answered qs) = []"
  "committed (pr_events repo number original answered qs) = []"
  "issued (pr_events repo number original answered qs) = []"
  "pull_requests (pr_events repo number original answered qs) =
     concat (map (\<lambda>((t, r), q). case r of Inl e \<Rightarrow> []
                    | Inr n \<Rightarrow> [pull_request number original t n]) (zip answered qs))"
  by (induction answered qs rule: list_induct2';
      auto simp: pr_events_simps(1,2) pr_events_Cons seen_simps split: sum.splits)+

lemma issue_occurrences:
  assumes "pushes tr = pushed_ok number (head_ref info) branches"
    and "length (apply_results tr) = length branches"
    and "branches = done @ rest"
    and "cf = conflicted branches (apply_results tr)"
    and "map fst (issued tr) = map (issue_request number (baseCommitMessage commits) info cf) done"
  shows "occ_from (occurrence_ok w repo number branches info commits) tr
           (issue_events repo number (baseCommitMessage commits) info cf rest rs)"
  using assms
proof (induction rest arbitrary: "done" tr rs)
  case Nil
  show ?case by (simp add: issue_events_simps)
next
  case (Cons target rest)
  show ?case
  proof (cases rs)
    case Nil
    then show ?thesis by (simp add: issue_events_simps)
  next
    case (Cons r rs')
    let ?x = "CreateIssue repo (issue_request number (baseCommitMessage commits) info cf target) r"
    have "occurrence_ok w repo number branches info commits tr ?x"
      using Cons.prems by (auto simp: occurrence_ok_def)
    moreover have "occ_from (occurrence_ok w repo number branches info commits) (tr @ [?x])
           (issue_events repo number (baseCommitMessage commits) info cf rest rs')"
      using Cons.prems by (intro Cons.IH [of "tr @ [?x]" "done @ [target]"]) (simp_all add: seen_simps)
    ultimately show ?thesis
      using Cons by (simp add: issue_events_simps)
  qed
qed

lemma pr_occurrences:
  assumes "map fst (issued tr) =
             map (issue_request number (baseCommitMessage commits) info
                    (conflicted branches (apply_results tr))) branches"
    and "set answered \<subseteq> set (zip branches (map snd (issued tr)))"
  shows "occ_from (occurrence_ok w repo number branches info commits) tr
           (pr_events repo number (head_ref info) answered qs)"
  using assms
proof (induction answered arbitrary: tr qs)
  case Nil
  show ?case by (simp add: pr_events_simps)
next
  case (Cons a answered)
  obtain t r where a: "a = (t, r)" by (cases a)
  show ?case
  proof (cases qs)
    case Nil
    then show ?thesis by (simp add: pr_events_simps)
  next
    case q: (Cons q qs')
    show ?thesis
    proof (cases r)
      case (Inl e)
      have "occ_from (occurrence_ok w repo number branches info commits) tr
              (pr_events repo number (head_ref info) answered qs')"
        using Cons.prems by (intro Cons.IH) simp_all
      then show ?thesis by (simp add: a q Inl pr_events_simps)
    next
      case (Inr n)
      let ?x = "CreatePullRequest repo (pull_request number (head_ref info) t n) q"
      have "occurrence_ok w repo number branches info commits tr ?x"
        using Cons.prems a Inr by (auto simp: occurrence_ok_def)
      moreover have "occ_from (occurrence_ok w repo number branches info commits) (tr @ [?x])
              (pr_events repo number (head_ref info) answered qs')"
        using Cons.prems by (intro Cons.IH) (simp_all add: seen_simps)
      ultimately show ?thesis by (simp add: a q Inr pr_events_simps)
    qed
  qed
qed

lemma map_fst_answers:
  "length bs = length rs \<Longrightarrow> map fst (map (\<lambda>(t, r). (f t, r)) (zip bs rs)) = map f bs"
  by (induction bs rs rule: list_induct2) simp_all

lemma map_snd_answers:
  "length bs = length rs \<Longrightarrow> map snd (map (\<lambda>(t, r). (f t, r)) (zip bs rs)) = rs"
  by (induction bs rs rule: list_induct2) simp_all

lemma requests_of_answers:
  "length answered = length qs \<Longrightarrow>
   concat (map (\<lambda>((t, r), q). case r of Inl e \<Rightarrow> [] | Inr n \<Rightarrow> [g t n]) (zip answered qs)) =
   concat (map (\<lambda>(t, r). case r of Inl e \<Rightarrow> [] | Inr n \<Rightarrow> [g t n]) answered)"
  by (induction answered qs rule: list_induct2) auto

lemma all_settled_answers:
  "length bs = length rs \<Longrightarrow> length rs = length qs \<Longrightarrow>
   all_settled (settled (zip bs rs) qs) = Inr x \<Longrightarrow> \<exists>ns. rs = map Inr ns"
proof (induction bs rs qs arbitrary: x rule: list_induct3)
  case Nil
  show ?case by simp
next
  case (Cons b bs r rs q qs)
  from Cons.prems obtain n where r: "r = Inr n"
    by (cases r) (simp_all add: settled_def)
  with Cons.prems obtain u where q: "q = Inr u"
    by (cases q) (simp_all add: settled_def)
  from Cons.prems r q obtain xs where "all_settled (settled (zip bs rs) qs) = Inr xs"
    by (cases "all_settled (settled (zip bs rs) qs)") (simp_all add: settled_def)
  then obtain ns where "rs = map Inr ns" using Cons.IH by blast
  with r have "r # rs = map Inr (n # ns)" by simp
  then show ?case by (rule exI)
qed

lemma issued_numbers:
  "map (\<lambda>(t, r). (f t, r)) (zip bs (map Inr ns)) = map (\<lambda>(t, n). (f t, Inr n)) (zip bs ns)"
  by (induction bs ns rule: list_induct2') simp_all

lemma requests_numbers:
  "concat (map (\<lambda>(t, r). case r of Inl e \<Rightarrow> [] | Inr n \<Rightarrow> [g t n]) (zip bs (map Inr ns))) =
   map (\<lambda>(t, n). g t n) (zip bs ns)"
  by (induction bs ns rule: list_induct2') simp_all

lemma publish_occurrences:
  assumes inv: "push_inv w repo number branches info commits branches s"
  shows "wp (publish w repo number (baseCommitMessage commits) info branches)
     (\<lambda>s' r. failed_inv w repo number branches info commits (trace s')
          \<and> (\<forall>x. r = Inr x \<longrightarrow> completed number branches info commits (trace s'))) s"
proof (rule publish_wpI)
  fix rs :: "(err + nat) list" and qs :: "(err + unit) list"
  assume rs: "length rs = length branches" and qs: "length qs = length branches"
  let ?bm = "baseCommitMessage commits"
  let ?cf = "conflicted branches (apply_results (trace s))"
  let ?ie = "issue_events repo number ?bm info (branchesWithConflicts s) branches rs"
  let ?pe = "pr_events repo number (head_ref info) (zip branches rs) qs"
  let ?tr = "trace s @ ?ie @ ?pe"
  let ?f = "issue_request number ?bm info ?cf"
  from inv have bwc: "branchesWithConflicts s = ?cf"
    and occ: "every_occ (occurrence_ok w repo number branches info commits) (trace s)"
    and com: "committed (trace s) = commit_messages number ?bm branches"
    and app: "length (apply_results (trace s)) = length branches"
    and psh: "pushes (trace s) = pushed_ok number (head_ref info) branches"
    and iss: "issued (trace s) = []" and prs: "pull_requests (trace s) = []"
    by (simp_all add: push_inv_def)
  have issued_tr: "issued ?tr = map (\<lambda>(t, r). (?f t, r)) (zip branches rs)"
    by (simp add: seen_simps seen_issue_events seen_pr_events iss bwc)
  have fst_issued: "map fst (issued ?tr) = map ?f branches"
    unfolding issued_tr by (rule map_fst_answers) (simp add: rs)
  have snd_issued: "map snd (issued ?tr) = rs"
    unfolding issued_tr by (rule map_snd_answers) (simp add: rs)
  have applied_tr: "apply_results ?tr = apply_results (trace s)"
    by (simp add: seen_simps seen_issue_events seen_pr_events)
  have requests_tr: "pull_requests ?tr =
      concat (map (\<lambda>(t, r). case r of Inl e \<Rightarrow> []
                     | Inr n \<Rightarrow> [pull_request number (head_ref info) t n]) (zip branches rs))"
    using rs qs
    by (simp add: seen_simps seen_issue_events seen_pr_events prs requests_of_answers)
  have o1: "occ_from (occurrence_ok w repo number branches info commits) (trace s) ?ie"
    unfolding bwc
    by (rule issue_occurrences [where ?done = "[]"]) (simp_all add: psh iss app)
  have o2: "occ_from (occurrence_ok w repo number branches info commits) (trace s @ ?ie) ?pe"
  proof (rule pr_occurrences)
    have i: "issued (trace s @ ?ie) = map (\<lambda>(t, r). (?f t, r)) (zip branches rs)"
      by (simp add: seen_simps seen_issue_events iss bwc)
    have a: "apply_results (trace s @ ?ie) = apply_results (trace s)"
      by (simp add: seen_simps seen_issue_events)
    show "map fst (issued (trace s @ ?ie)) =
            map (issue_request number ?bm info (conflicted branches (apply_results (trace s @ ?ie))))
              branches"
      unfolding i a by (rule map_fst_answers) (simp add: rs)
    have "map snd (issued (trace s @ ?ie)) = rs"
      unfolding i by (rule map_snd_answers) (simp add: rs)
    then show "set (zip branches rs) \<subseteq> set (zip branches (map snd (issued (trace s @ ?ie))))"
      by simp
  qed
  have every: "every_occ (occurrence_ok w repo number branches info commits) ?tr"
    using occ o1 o2 by (simp add: every_occ_append [of _ "trace s" "?ie @ ?pe"]
        every_occ_append [of _ "trace s" ?ie] every_occ_append [of _ "trace s @ ?ie" ?pe]
        flip: append_assoc)
  have pub: "published_ok number branches info commits ?tr"
    unfolding published_ok_def applied_tr fst_issued snd_issued requests_tr by simp
  have fin: "completed number branches info commits ?tr"
    if "all_settled (settled (zip branches rs) qs) = Inr x" for x
  proof -
    from that rs qs obtain ns where ns: "rs = map Inr ns"
      using all_settled_answers [of branches rs qs x] by auto
    with rs have len: "length ns = length branches" by simp
    have "issued ?tr = map (\<lambda>(t, r). (?f t, r)) (zip branches rs)"
      by (rule issued_tr)
    also have "\<dots> = map (\<lambda>(t, r). (?f t, r)) (zip branches (map Inr ns))"
      by (simp only: ns)
    also have "\<dots> = map (\<lambda>(t, n). (?f t, Inr n)) (zip branches ns)"
      by (rule issued_numbers)
    finally have i: "issued ?tr = map (\<lambda>(t, n). (?f t, Inr n)) (zip branches ns)" .
    have "pull_requests ?tr =
        concat (map (\<lambda>(t, r). case r of Inl e \<Rightarrow> []
                     | Inr n \<Rightarrow> [pull_request number (head_ref info) t n]) (zip branches rs))"
      by (rule requests_tr)
    also have "\<dots> = concat (map (\<lambda>(t, r). case r of Inl e \<Rightarrow> []
                     | Inr n \<Rightarrow> [pull_request number (head_ref info) t n])
                  (zip branches (map (Inr :: nat \<Rightarrow> err + nat) ns)))"
      by (simp only: ns)
    also have "\<dots> = map (\<lambda>(t, n). pull_request number (head_ref info) t n) (zip branches ns)"
      by (rule requests_numbers)
    finally have p: "pull_requests ?tr =
        map (\<lambda>(t, n). pull_request number (head_ref info) t n) (zip branches ns)" .
    have c: "committed ?tr = commit_messages number ?bm branches"
      by (simp add: seen_simps seen_issue_events seen_pr_events com)
    have q: "pushes ?tr = pushed_ok number (head_ref info) branches"
      by (simp add: seen_simps seen_issue_events seen_pr_events psh)
    show ?thesis
      unfolding completed_def applied_tr
      using len app i p c q by blast
  qed
  show "failed_inv w repo number branches info commits
          (trace (s\<lparr>trace := ?tr\<rparr>))
        \<and> (\<forall>x. all_settled (settled (zip branches rs) qs) = Inr x \<longrightarrow>
              completed number branches info commits (trace (s\<lparr>trace := ?tr\<rparr>)))"
    using every pub fin by (simp add: failed_inv_def)
qed

lemma failed_inv_EmitError:
  "failed_inv w repo number branches info commits tr \<Longrightarrow>
   failed_inv w repo number branches info commits (tr @ [EmitError e])"
  by (simp add: failed_inv_def every_occ_snoc occurrence_other published_ok_def seen_simps)

lemma failed_inv_Send:
  "failed_inv w repo number branches info commits tr \<Longrightarrow>
   failed_inv w repo number branches info commits (tr @ [Send m])"
  by (simp add: failed_inv_def every_occ_snoc occurrence_other published_ok_def seen_simps)

lemma failed_inv_CleanupTmp:
  "failed_inv w repo number branches info commits tr \<Longrightarrow>
   failed_inv w repo number branches info commits (tr @ [CleanupTmp path])"
  by (simp add: failed_inv_def every_occ_snoc occurrence_other published_ok_def seen_simps)

lemma completed_Send:
  "completed number branches info commits tr \<Longrightarrow>
   completed number branches info commits (tr @ [Send m])"
  by (simp add: completed_def seen_simps)

lemma completed_CleanupTmp:
  "completed number branches info commits tr \<Longrightarrow>
   completed number branches info commits (tr @ [CleanupTmp path])"
  by (simp add: completed_def seen_simps)

lemma failed_inv_finish:
  "failed_inv w repo number branches info commits tr \<Longrightarrow>
   failed_inv w repo number branches info commits (tr @ [CleanupTmp path, Send m])"
  using failed_inv_Send [OF failed_inv_CleanupTmp, of w repo number branches info commits tr path m]
  by simp

lemma completed_finish:
  "completed number branches info commits tr \<Longrightarrow>
   completed number branches info commits (tr @ [CleanupTmp path, Send m])"
  using completed_Send [OF completed_CleanupTmp, of number branches info commits tr path m]
  by simp

lemma not_succeeded_EmitError: "\<not> succeeded (tr @ [EmitError e])"
  by (simp add: succeeded_def)

lemma loop_inv_start:
  "loop_inv w repo number branches info commits []
     (initial\<lparr>trace := [GetInfo repo number (Inr info), GetCommits repo number (Inr commits)]\<rparr>)"
  by (simp add: loop_inv_def initial_def every_occ_from occurrence_other seen_simps
      conflicted_def commit_messages_def)

lemma diff_occurrences:
  assumes "loop_inv w repo number branches info commits [] s"
  shows "wp (diffFile w info) (\<lambda>s' d. loop_inv w repo number branches info commits [] s') s"
  using assms
  by (intro diffFile_wpI)
     (simp_all add: loop_inv_def every_occ_append occurrence_other seen_simps)

lemma run_occurrences:
  assumes info: "getInfo w repo number [] = Inr info"
    and commits: "getCommits w repo number [GetInfo repo number (Inr info)] = Inr commits"
  shows "failed_inv w repo number branches info commits (backport w repo number branches)
       \<and> (succeeded (backport w repo number branches) \<longrightarrow>
            completed number branches info commits (backport w repo number branches))"
proof (rule backport_info_wpI [OF info,
      where P = "\<lambda>tr. failed_inv w repo number branches info commits tr
                  \<and> (succeeded tr \<longrightarrow> completed number branches info commits tr)"])
  fix e
  show "failed_inv w repo number branches info commits
          [GetInfo repo number (Inr info), GetCommits repo number (Inl e), EmitError e]
        \<and> (succeeded [GetInfo repo number (Inr info), GetCommits repo number (Inl e), EmitError e]
             \<longrightarrow> completed number branches info commits
                   [GetInfo repo number (Inr info), GetCommits repo number (Inl e), EmitError e])"
    by (simp add: failed_inv_def every_occ_from occurrence_other published_ok_def seen_simps
        succeeded_def)
next
  fix commits'
  assume "getCommits w repo number [GetInfo repo number (Inr info)] = Inr commits'"
  with commits have eq: "commits' = commits" by simp
  let ?F = "\<lambda>tr. failed_inv w repo number branches info commits tr"
  let ?C = "\<lambda>tr. completed number branches info commits tr"
  have "wp (backport_steps w repo number branches info commits)
          (\<lambda>s r. case r of Inl e \<Rightarrow> ?F (trace s)
                 | Inr _ \<Rightarrow> ?F (trace s) \<and> ?C (trace s))
          (initial\<lparr>trace := [GetInfo repo number (Inr info), GetCommits repo number (Inr commits)]\<rparr>)"
    apply (rule backport_steps_wpI [where
          A = "\<lambda>s d. loop_inv w repo number branches info commits [] s"
          and C = "loop_inv w repo number branches info commits branches"
          and D = "push_inv w repo number branches info commits branches"
          and E = "\<lambda>s. ?F (trace s) \<and> ?C (trace s)"
          and F = "\<lambda>s e. ?F (trace s)"
          and G = "\<lambda>s. ?F (trace s) \<and> ?C (trace s)"])
    subgoal
      by (simp add: failed_inv_def every_occ_from occurrence_other published_ok_def seen_simps)
    subgoal
      by (simp add: failed_inv_def every_occ_from occurrence_other published_ok_def seen_simps)
    subgoal by (rule diff_occurrences) (rule loop_inv_start)
    subgoal
      by (simp add: loop_inv_def failed_inv_def every_occ_snoc occurrence_other
          published_ok_empty seen_simps)
    subgoal
      by (rule branches_occurrences)
         (simp add: loop_inv_def every_occ_snoc occurrence_other seen_simps)
    subgoal by (rule push_occurrences)
    subgoal
      by (rule wp_mono [OF publish_occurrences]) (simp_all split: sum.splits)
    subgoal
      by (simp add: failed_inv_Send failed_inv_finish completed_Send completed_finish
          split: cleanup.splits)
    done
  then show "wp (backport_steps w repo number branches info commits')
          (\<lambda>s r. case r of
             Inl e \<Rightarrow> ?F (trace s @ [EmitError e])
                     \<and> (succeeded (trace s @ [EmitError e]) \<longrightarrow> ?C (trace s @ [EmitError e]))
           | Inr _ \<Rightarrow> ?F (trace s) \<and> (succeeded (trace s) \<longrightarrow> ?C (trace s)))
          (initial\<lparr>trace := [GetInfo repo number (Inr info), GetCommits repo number (Inr commits')]\<rparr>)"
    unfolding eq
    by (rule wp_mono)
       (simp add: failed_inv_EmitError not_succeeded_EmitError split: sum.splits)
qed

lemma run_occurrence:
  assumes "getInfo w repo number [] = Inr info"
    and "getCommits w repo number [GetInfo repo number (Inr info)] = Inr commits"
    and "backport w repo number branches = pre @ x # post"
  shows "occurrence_ok w repo number branches info commits pre x"
  using run_occurrences [OF assms(1,2), of branches] assms(3)
  by (simp add: failed_inv_def every_occ_def)

lemma run_completed:
  assumes "getInfo w repo number [] = Inr info"
    and "getCommits w repo number [GetInfo repo number (Inr info)] = Inr commits"
    and "succeeded (backport w repo number branches)"
  shows "completed number branches info commits (backport w repo number branches)"
  using run_occurrences [OF assms(1,2), of branches] assms(3) by simp

lemma is_conflict_iff:
  "is_conflict r = (\<exists>e. r = Inl e \<and> CONFLICTS_REGEX_test (err_message e))"
  by (cases r) (simp_all add: is_conflict_def)

lemma conflicted_iff:
  assumes "length rs = length branches"
  shows "(target \<in> set (conflicted branches rs)) =
         (\<exists>j. j < length branches \<and> branches ! j = target
              \<and> (\<exists>e. rs ! j = Inl e \<and> CONFLICTS_REGEX_test (err_message e)))"
proof
  assume "target \<in> set (conflicted branches rs)"
  then obtain r where "(target, r) \<in> set (zip branches rs)" and "is_conflict r"
    by (auto simp: conflicted_def)
  then obtain j where "j < length branches" "branches ! j = target" "rs ! j = r"
    by (auto simp: in_set_zip)
  with \<open>is_conflict r\<close> show "\<exists>j. j < length branches \<and> branches ! j = target
              \<and> (\<exists>e. rs ! j = Inl e \<and> CONFLICTS_REGEX_test (err_message e))"
    by (auto simp: is_conflict_iff)
next
  assume "\<exists>j. j < length branches \<and> branches ! j = target
              \<and> (\<exists>e. rs ! j = Inl e \<and> CONFLICTS_REGEX_test (err_message e))"
  then obtain j where j: "j < length branches" "branches ! j = target" and c: "is_conflict (rs ! j)"
    by (auto simp: is_conflict_iff)
  from j assms have "(target, rs ! j) \<in> set (zip branches rs)"
    by (auto simp: in_set_zip)
  with c show "target \<in> set (conflicted branches rs)"
    by (force simp: conflicted_def)
qed


section \<open>Two runs of the scenario\<close>

text \<open>
  The run in which the patch leaves conflicts on \<open>release-1.0\<close> and applies cleanly on
  \<open>release-2.0\<close>, and the run in which the first push is rejected.
\<close>

lemma conflict_run:
  "backport conflict_world ''elastic/kibana'' ''42'' targets =
     [GetInfo ''elastic/kibana'' ''42'' (Inr scenario_info),
      GetCommits ''elastic/kibana'' ''42'' (Inr scenario_commits),
      RequestGet ''https://github.com/elastic/kibana/pull/42.diff'' (Inr ''diff --git a/f b/f''),
      TmpFile ''jasper-'' (Inr ''/tmp/jasper-1''),
      WriteFile ''/tmp/jasper-1'' ''diff --git a/f b/f'' (Inr ()),
      OpenOrClone ''/srv/jasper/repos/elastic/kibana'' ''git@github.com:elastic/kibana.git'' (Inr ()),
      Fetch ''origin'' (Inr ()),
      GetReferenceCommit ''origin/release-1.0'' (Inr ''tip of origin/release-1.0''),
      CreateBranch ''jasper/backport/42-release-1.0-feature-x'' ''tip of origin/release-1.0'' (Inr ()),
      CheckoutBranch ''jasper/backport/42-release-1.0-feature-x'' (Inr ()),
      ExecFile ''git'' [''apply'', ''--3way'', ''/tmp/jasper-1''] ''/srv/jasper/repos/elastic/kibana''
        (Inl (Error conflict_message)),
      RepoIndex (Inr ()), IndexAddAll ''.'' (Inr ()), IndexWrite (Inr ()),
      IndexWriteTree (Inr ''tree 1''), GetHeadCommit (Inr ''head 1''),
      GetSignature (Inr scenario_signature),
      CreateCommit ''HEAD'' scenario_signature scenario_signature
        (commitMessage ''42'' ''release-1.0'' (baseCommitMessage scenario_commits))
        ''tree 1'' [''head 1''] (Inr ''commit 1''),
      GetReferenceCommit ''origin/release-2.0'' (Inr ''tip of origin/release-2.0''),
      CreateBranch ''jasper/backport/42-release-2.0-feature-x'' ''tip of origin/release-2.0'' (Inr ()),
      CheckoutBranch ''jasper/backport/42-release-2.0-feature-x'' (Inr ()),
      ExecFile ''git'' [''apply'', ''--3way'', ''/tmp/jasper-1''] ''/srv/jasper/repos/elastic/kibana''
        (Inr ()),
      RepoIndex (Inr ()), IndexAddAll ''.'' (Inr ()), IndexWrite (Inr ()),
      IndexWriteTree (Inr ''tree 2''), GetHeadCommit (Inr ''head 2''),
      GetSignature (Inr scenario_signature),
      CreateCommit ''HEAD'' scenario_signature scenario_signature
        (commitMessage ''42'' ''release-2.0'' (baseCommitMessage scenario_commits))
        ''tree 2'' [''head 2''] (Inr ''commit 2''),
      GetRemote ''origin'' (Inr ()),
      Push [''refs/heads/jasper/backport/42-release-1.0-feature-x:refs/heads/jasper/backport/42-release-1.0-feature-x'']
        (Inr ()),
      Push [''refs/heads/jasper/backport/42-release-2.0-feature-x:refs/heads/jasper/backport/42-release-2.0-feature-x'']
        (Inr ()),
      CreateIssue ''elastic/kibana''
        (issue_request ''42'' (baseCommitMessage scenario_commits) scenario_info
           [''release-1.0''] ''release-1.0'') (Inr 132),
      CreateIssue ''elastic/kibana''
        (issue_request ''42'' (baseCommitMessage scenario_commits) scenario_info
           [''release-1.0''] ''release-2.0'') (Inr 133),
      CreatePullRequest ''elastic/kibana''
        \<lparr>issue = 132, head = ''jasper/backport/42-release-1.0-feature-x'', base = ''release-1.0''\<rparr>
        (Inr ()),
      CreatePullRequest ''elastic/kibana''
        \<lparr>issue = 133, head = ''jasper/backport/42-release-2.0-feature-x'', base = ''release-2.0''\<rparr>
        (Inr ()),
      CleanupTmp ''/tmp/jasper-1'',
      Send ''Backported pull request #42 to release-1.0, release-2.0'']"
  by code_simp


lemma broken_patch_run:
  "backport broken_patch_world ''elastic/kibana'' ''42'' targets =
     [GetInfo ''elastic/kibana'' ''42'' (Inr scenario_info),
      GetCommits ''elastic/kibana'' ''42'' (Inr scenario_commits),
      RequestGet ''https://github.com/elastic/kibana/pull/42.diff'' (Inr ''diff --git a/f b/f''),
      TmpFile ''jasper-'' (Inr ''/tmp/jasper-1''),
      WriteFile ''/tmp/jasper-1'' ''diff --git a/f b/f'' (Inr ()),
      OpenOrClone ''/srv/jasper/repos/elastic/kibana'' ''git@github.com:elastic/kibana.git'' (Inr ()),
      Fetch ''origin'' (Inr ()),
      GetReferenceCommit ''origin/release-1.0'' (Inr ''tip of origin/release-1.0''),
      CreateBranch ''jasper/backport/42-release-1.0-feature-x'' ''tip of origin/release-1.0'' (Inr ()),
      CheckoutBranch ''jasper/backport/42-release-1.0-feature-x'' (Inr ()),
      ExecFile ''git'' [''apply'', ''--3way'', ''/tmp/jasper-1''] ''/srv/jasper/repos/elastic/kibana''
        (Inl (Error ''error: patch failed: src/a.js:1'')),
      EmitError (Error ''error: patch failed: src/a.js:1'')]"
  by code_simp

lemma scenario_answers:
  "getInfo conflict_world ''elastic/kibana'' ''42'' [] = Inr scenario_info"
  "getCommits conflict_world ''elastic/kibana'' ''42''
     [GetInfo ''elastic/kibana'' ''42'' (Inr scenario_info)] = Inr scenario_commits"
  "getInfo rejected_push_world ''elastic/kibana'' ''42'' [] = Inr scenario_info"
  "getCommits rejected_push_world ''elastic/kibana'' ''42''
     [GetInfo ''elastic/kibana'' ''42'' (Inr scenario_info)] = Inr scenario_commits"
  "getSignature conflict_world = Inr scenario_signature"
  by (simp_all add: conflict_world_def rejected_push_world_def scenario_world_def)

lemma conflict_message_matches: "CONFLICTS_REGEX_test conflict_message"
  by code_simp

lemma patch_failed_no_match: "\<not> CONFLICTS_REGEX_test ''error: patch failed: src/a.js:1''"
  by code_simp

section \<open>Conflicts and other failures of \<open>git apply\<close>\<close>

text \<open>
  C4. Where \<open>git apply\<close> has answered with an error in a run: if the message of the error
  matches \<open>CONFLICTS_REGEX\<close>, the next step is the staging of the working tree for the
  commit of this branch; otherwise the report of this error is the next and the last event
  of the run. In the first case the step of the chain has added the target to
  \<open>branchesWithConflicts\<close> and has resolved; in the second it has rejected with the error.
\<close>

theorem apply_conflict_or_fatal:
  assumes "backport w repo number branches = pre @ ExecFile cmd args cwd (Inl e) # post"
  shows "(CONFLICTS_REGEX_test (err_message e) \<longrightarrow> (\<exists>r post'. post = RepoIndex r # post'))
       \<and> (\<not> CONFLICTS_REGEX_test (err_message e) \<longrightarrow> post = [EmitError e])
       \<and> (\<forall>s target path dir.
             execFile w ''git'' [''apply'', ''--3way'', path] dir (trace s) = Inl e \<longrightarrow>
             apply_patch w dir target path s =
               (if CONFLICTS_REGEX_test (err_message e)
                then (s\<lparr>trace := trace s @ [ExecFile ''git'' [''apply'', ''--3way'', path] dir (Inl e)],
                        branchesWithConflicts := branchesWithConflicts s @ [target]\<rparr>, Inr ())
                else (s\<lparr>trace := trace s @ [ExecFile ''git'' [''apply'', ''--3way'', path] dir (Inl e)]\<rparr>,
                      Inl e)))"
proof (intro conjI impI allI)
  assume c: "CONFLICTS_REGEX_test (err_message e)"
  from assms obtain y post' where p: "post = y # post'"
    and f: "may_follow (ExecFile cmd args cwd (Inl e)) y"
    by (rule run_next) simp
  from f c obtain r where "y = RepoIndex r" by (cases y) simp_all
  with p show "\<exists>r post'. post = RepoIndex r # post'" by simp
next
  assume c: "\<not> CONFLICTS_REGEX_test (err_message e)"
  from assms obtain y post' where p: "post = y # post'"
    and f: "may_follow (ExecFile cmd args cwd (Inl e)) y"
    by (rule run_next) simp
  from f c have y: "y = EmitError e" by simp
  with assms p have "post' = []" by (intro run_stops [of w repo number branches pre _ e]) simp
  with p y show "post = [EmitError e]" by simp
next
  fix s :: state and target path dir
  assume "execFile w ''git'' [''apply'', ''--3way'', path] dir (trace s) = Inl e"
  then show "apply_patch w dir target path s =
               (if CONFLICTS_REGEX_test (err_message e)
                then (s\<lparr>trace := trace s @ [ExecFile ''git'' [''apply'', ''--3way'', path] dir (Inl e)],
                        branchesWithConflicts := branchesWithConflicts s @ [target]\<rparr>, Inr ())
                else (s\<lparr>trace := trace s @ [ExecFile ''git'' [''apply'', ''--3way'', path] dir (Inl e)]\<rparr>,
                      Inl e))"
    by (simp add: apply_patch_def then_p_def started_def call_def reject_def modify_def Let_def)
qed

theorem apply_conflict_or_fatal_witness:
  "CONFLICTS_REGEX_test (err_message (Error conflict_message))
   \<and> (\<exists>r post'. drop 11 (backport conflict_world ''elastic/kibana'' ''42'' targets) = RepoIndex r # post')
   \<and> \<not> CONFLICTS_REGEX_test (err_message (Error ''error: patch failed: src/a.js:1''))
   \<and> drop 11 (backport broken_patch_world ''elastic/kibana'' ''42'' targets)
       = [EmitError (Error ''error: patch failed: src/a.js:1'')]"
proof -
  have a: "backport conflict_world ''elastic/kibana'' ''42'' targets =
     take 10 (backport conflict_world ''elastic/kibana'' ''42'' targets)
     @ ExecFile ''git'' [''apply'', ''--3way'', ''/tmp/jasper-1''] ''/srv/jasper/repos/elastic/kibana''
         (Inl (Error conflict_message))
     # drop 11 (backport conflict_world ''elastic/kibana'' ''42'' targets)"
    by (simp add: conflict_run)
  have b: "CONFLICTS_REGEX_test (err_message (Error conflict_message))"
    by (simp add: conflict_message_matches)
  have c: "backport broken_patch_world ''elastic/kibana'' ''42'' targets =
     take 10 (backport broken_patch_world ''elastic/kibana'' ''42'' targets)
     @ ExecFile ''git'' [''apply'', ''--3way'', ''/tmp/jasper-1''] ''/srv/jasper/repos/elastic/kibana''
         (Inl (Error ''error: patch failed: src/a.js:1''))
     # drop 11 (backport broken_patch_world ''elastic/kibana'' ''42'' targets)"
    by (simp add: broken_patch_run)
  have d: "\<not> CONFLICTS_REGEX_test (err_message (Error ''error: patch failed: src/a.js:1''))"
    using patch_failed_no_match by simp
  from apply_conflict_or_fatal [OF a] b
  have "\<exists>r post'. drop 11 (backport conflict_world ''elastic/kibana'' ''42'' targets) = RepoIndex r # post'"
    by blast
  moreover from apply_conflict_or_fatal [OF c] d
  have "drop 11 (backport broken_patch_world ''elastic/kibana'' ''42'' targets)
       = [EmitError (Error ''error: patch failed: src/a.js:1'')]"
    by blast
  ultimately show ?thesis using b d by blast
qed

lemma created_branches_append:
  "created_branches (xs @ ys) = created_branches xs @ created_branches ys"
  by (simp add: created_branches_def)

lemma created_branches_Nil: "created_branches [] = []"
  by (simp add: created_branches_def)

lemma created_branches_Cons: "created_branches (ev # tr) = created_of ev @ created_branches tr"
  by (simp add: created_branches_def)

lemmas created_simps = created_branches_Nil created_branches_Cons created_branches_append

lemma diff_not_created: "diff_event ev \<Longrightarrow> created_of ev = []"
  by (cases ev) simp_all

lemma push_not_created: "push_event ev \<Longrightarrow> created_of ev = []"
  by (cases ev) simp_all

lemma publish_not_created: "publish_event ev \<Longrightarrow> created_of ev = []"
  by (cases ev) simp_all

lemma target_created:
  assumes "created_branches (trace s) = names"
  shows "wp (backport_target w number original base_message cwd diff target)
     (\<lambda>s' r. case r of
        Inl e \<Rightarrow> created_branches (trace s') = names
                 \<or> created_branches (trace s') = names @ [backportBranchName number original target]
      | Inr _ \<Rightarrow> created_branches (trace s') = names @ [backportBranchName number original target]) s"
  using assms
  apply -
  apply (rule backport_target_wpI)
        apply (simp_all add: created_simps)
   apply (rule commit_all_wpI; simp add: created_simps split: sum.splits)
  apply (rule commit_all_wpI; simp add: created_simps split: sum.splits)
  done

lemma succeeded_append_Cons: "succeeded (tr @ ev # evs) = succeeded (ev # evs)"
  by (simp add: succeeded_def)

lemma succeeded_Cons_Cons: "succeeded (ev # ev' # evs) = succeeded (ev' # evs)"
  by (simp add: succeeded_def)

lemma succeeded_single: "succeeded [ev] = (case ev of Send m \<Rightarrow> True | _ \<Rightarrow> False)"
  by (simp add: succeeded_def)

lemmas succeeded_simps = succeeded_append_Cons succeeded_Cons_Cons succeeded_single

lemma succeeded_EmitError: "\<not> succeeded (tr @ [EmitError e])"
  by (simp add: succeeded_simps)



lemma created_branches_run:
  fixes branches :: "string list"
  assumes info: "getInfo w repo number [] = Inr info"
  defines "names \<equiv> map (backportBranchName number (head_ref info)) branches"
  shows "prefix (created_branches (backport w repo number branches)) names
         \<and> (succeeded (backport w repo number branches) \<longrightarrow>
              created_branches (backport w repo number branches) = names)"
proof -
  define P where "P tr \<longleftrightarrow> prefix (created_branches tr) names
      \<and> (succeeded tr \<longrightarrow> created_branches tr = names)" for tr
  have failed: "prefix (created_branches tr) names \<Longrightarrow> \<not> succeeded tr \<Longrightarrow> P tr" for tr
    by (simp add: P_def)
  have step: "wp (backport_target w number (head_ref info) base_message cwd d target)
             (\<lambda>s' r. case r of Inl e \<Rightarrow> P (trace s' @ [EmitError e])
                | Inr _ \<Rightarrow> created_branches (trace s')
                            = map (backportBranchName number (head_ref info)) (done @ [target])) s"
    if i: "created_branches (trace s) = map (backportBranchName number (head_ref info)) done"
      and p: "prefix (done @ [target]) branches"
    for base_message cwd d target "done" and s :: state
  proof -
    from p have p1: "prefix (map (backportBranchName number (head_ref info)) done
                       @ [backportBranchName number (head_ref info) target]) names"
      unfolding names_def by (metis list.simps(8,9) map_append map_mono_prefix)
    then have p0: "prefix (map (backportBranchName number (head_ref info)) done) names"
      using append_prefixD by blast
    show ?thesis
      by (rule wp_mono [OF target_created [OF i]])
         (use p0 p1 in \<open>auto split: sum.splits intro!: failed simp: created_simps succeeded_simps\<close>)
  qed
  have "P (backport w repo number branches)"
    apply (rule backport_info_wpI [OF info])
     apply (simp add: P_def created_simps succeeded_simps)
    apply (rule backport_steps_wpI [where A = "\<lambda>s d. created_branches (trace s) = []"
        and C = "\<lambda>s. created_branches (trace s) = names"
        and D = "\<lambda>s. created_branches (trace s) = names"
        and E = "\<lambda>s. created_branches (trace s) = names"])
    subgoal by (simp add: failed created_simps succeeded_simps)
    subgoal by (simp add: failed created_simps succeeded_simps)
    subgoal
      by (rule wp_mono [OF emits_keeps [OF emits_diffFile, of created_branches]])
         (simp_all add: diff_not_created created_simps)
    subgoal by (simp add: failed created_simps succeeded_simps)
    subgoal
      apply (rule backport_branches_wpI [where
          I = "\<lambda>done s. created_branches (trace s) = map (backportBranchName number (head_ref info)) done"
          and branches = branches, unfolded names_def [symmetric]])
      subgoal by (simp add: failed created_simps succeeded_simps)
      subgoal by (simp add: created_simps)
      subgoal by (rule step)
      done
    subgoal
      by (rule wp_mono [OF emits_keeps [OF emits_push_branches, of created_branches]])
         (auto simp: push_not_created created_simps succeeded_simps
               split: sum.splits intro!: failed)
    subgoal
      by (rule wp_mono [OF emits_keeps [OF emits_publish, of created_branches]])
         (auto simp: publish_not_created created_simps succeeded_simps
               split: sum.splits intro!: failed)
    subgoal by (simp add: P_def created_simps succeeded_simps split: cleanup.splits)
    done
  then show ?thesis by (simp add: P_def)
qed

text \<open>
  C1, as the code has it. The branches a run creates are, in the order of the targets,
  \<open>jasper/backport/<number>-<target>-<head ref>\<close>: a run never creates a branch of
  another name, nor a second branch for an entry of the target list, and a run that ends
  with the report of success has created the branch of every target. The name is a function
  of the number, the target and the head ref.
\<close>

theorem derived_branches:
  assumes "getInfo w repo number [] = Inr info"
  shows "prefix (created_branches (backport w repo number branches))
           (map (\<lambda>target. ''jasper/backport/'' @ number @ ''-'' @ target @ ''-'' @ head_ref info)
                branches)
         \<and> (succeeded (backport w repo number branches) \<longrightarrow>
              created_branches (backport w repo number branches) =
                map (\<lambda>target. ''jasper/backport/'' @ number @ ''-'' @ target @ ''-'' @ head_ref info)
                    branches)"
proof -
  have "backportBranchName number (head_ref info)
          = (\<lambda>target. ''jasper/backport/'' @ number @ ''-'' @ target @ ''-'' @ head_ref info)"
    by (rule ext) (simp only: backportBranchName_def)
  then show ?thesis
    using created_branches_run [OF assms, of branches] by metis
qed

theorem derived_branches_witness:
  "getInfo clean_world ''elastic/kibana'' ''42'' [] = Inr scenario_info
   \<and> succeeded (backport clean_world ''elastic/kibana'' ''42'' targets)
   \<and> created_branches (backport clean_world ''elastic/kibana'' ''42'' targets) =
       [''jasper/backport/42-release-1.0-feature-x'', ''jasper/backport/42-release-2.0-feature-x'']"
proof -
  have h: "getInfo clean_world ''elastic/kibana'' ''42'' [] = Inr scenario_info"
    by (simp add: clean_world_def scenario_world_def)
  have s: "succeeded (backport clean_world ''elastic/kibana'' ''42'' targets)"
    by code_simp
  from derived_branches [OF h, of targets] s
  have "created_branches (backport clean_world ''elastic/kibana'' ''42'' targets) =
          map (\<lambda>target. ''jasper/backport/'' @ ''42'' @ ''-'' @ target @ ''-'' @ head_ref scenario_info)
              targets"
    by blast
  with h s show ?thesis
    by (simp add: targets_def scenario_info_def)
qed

text \<open>The name the claim gives, without the prefix \<open>jasper/\<close>, is not the one created.\<close>

theorem derived_branches_counterexample:
  "merged scenario_info
   \<and> base_ref scenario_info \<notin> set targets
   \<and> succeeded (backport clean_world ''elastic/kibana'' ''42'' targets)
   \<and> created_branches (backport clean_world ''elastic/kibana'' ''42'' targets)
       \<noteq> [''backport/42-release-1.0-feature-x'', ''backport/42-release-2.0-feature-x'']"
  by code_simp

section \<open>The consolidated message\<close>

lemma join_blocks:
  "join sep xs = (case xs of [] \<Rightarrow> [] | x # ys \<Rightarrow> x @ concat (map (\<lambda>y. sep @ y) ys))"
proof (cases xs)
  case Nil
  then show ?thesis by simp
next
  case (Cons x ys)
  have "join sep (x # ys) = x @ concat (map (\<lambda>y. sep @ y) ys)"
    by (induction ys arbitrary: x) simp_all
  with Cons show ?thesis by simp
qed

lemma blank_line: "newline @ newline = [CHR 0x0A, CHR 0x0A]"
  by (simp add: newline_def)

lemma commit_block_lines:
  "commit_block num data =
     ''[Commit '' @ string_of_nat num @ '']'' @ [CHR 0x0A]
     @ message (commit data) @ [CHR 0x0A, CHR 0x0A]
     @ ''Original sha: '' @ sha data @ [CHR 0x0A]
     @ ''Authored by '' @ name (author (commit data)) @ '' <'' @ email (author (commit data))
       @ ''> on '' @ date (author (commit data)) @ [CHR 0x0A]
     @ ''Committed by '' @ name (committer (commit data)) @ '' <'' @ email (committer (commit data))
       @ ''> on '' @ date (committer (commit data))"
  by (simp add: commit_block_def newline_def)

lemma map_commits_nth:
  "map_commits num commits =
     map (\<lambda>i. commit_block (num + i + 1) (commits ! i)) [0..<length commits]"
proof (induction commits arbitrary: num)
  case Nil
  show ?case by simp
next
  case (Cons data rest)
  have "[0..<length (data # rest)] = 0 # map Suc [0..<length rest]"
    by (simp add: upt_conv_Cons map_Suc_upt del: upt_Suc)
  moreover have "map_commits (Suc num) rest =
      map (\<lambda>i. commit_block (Suc (Suc (num + i))) (rest ! i)) [0..<length rest]"
    using Cons.IH [of "Suc num"] by simp
  ultimately show ?case
    by (simp add: comp_def del: upt_Suc)
qed

lemma string_of_nat_decimal: "decimal (string_of_nat n) = n"
proof (induction n rule: string_of_nat.induct)
  case (1 n)
  show ?case
  proof (cases "n < 10")
    case True
    then show ?thesis by (simp add: string_of_nat.simps [of n] decimal_def)
  next
    case False
    then have "decimal (string_of_nat (n div 10)) = n div 10" using 1 by simp
    with False show ?thesis by (simp add: string_of_nat.simps [of n] decimal_def)
  qed
qed

lemma digit_char: "(n :: nat) < 10 \<Longrightarrow> (char_of (48 + n) :: char) \<in> set ''0123456789''"
proof -
  assume "n < 10"
  then have "n \<in> {0, 1, 2, 3, 4, 5, 6, 7, 8, 9}" by auto
  then show ?thesis by (elim insertE emptyE; hypsubst; code_simp)
qed

lemma string_of_nat_digits: "set (string_of_nat n) \<subseteq> set ''0123456789''"
proof (induction n rule: string_of_nat.induct)
  case (1 n)
  show ?case
  proof (cases "n < 10")
    case True
    then show ?thesis using digit_char [of n] by (simp add: string_of_nat.simps [of n])
  next
    case False
    moreover have "n mod 10 < 10" by simp
    ultimately show ?thesis
      using 1 digit_char [of "n mod 10"] by (simp add: string_of_nat.simps [of n])
  qed
qed

text \<open>
  C6. The consolidated message is the block of the first commit, followed, for every
  other commit in the order of the list, by two line feeds (an empty line) and the block
  of this commit; the message of an empty list is empty. The block of the commit at
  position \<open>i\<close> (from 0) is \<open>[Commit \<close>, the number \<open>i + 1\<close> in decimal digits, \<open>]\<close>,
  a line feed, the message, two line feeds, \<open>Original sha: \<close> and the sha, a line feed,
  \<open>Authored by \<close> with name, email and date of the author, a line feed, and
  \<open>Committed by \<close> with name, email and date of the committer, each as it was received.
  The last conjunct is the message of two commits, written out.
\<close>

theorem consolidated_message:
  "baseCommitMessage commits =
     (case map (\<lambda>i. ''[Commit '' @ string_of_nat (i + 1) @ '']'' @ [CHR 0x0A]
                  @ message (commit (commits ! i)) @ [CHR 0x0A, CHR 0x0A]
                  @ ''Original sha: '' @ sha (commits ! i) @ [CHR 0x0A]
                  @ ''Authored by '' @ name (author (commit (commits ! i)))
                    @ '' <'' @ email (author (commit (commits ! i)))
                    @ ''> on '' @ date (author (commit (commits ! i))) @ [CHR 0x0A]
                  @ ''Committed by '' @ name (committer (commit (commits ! i)))
                    @ '' <'' @ email (committer (commit (commits ! i)))
                    @ ''> on '' @ date (committer (commit (commits ! i))))
               [0..<length commits] of
        [] \<Rightarrow> []
      | block # blocks \<Rightarrow> block @ concat (map (\<lambda>b. [CHR 0x0A, CHR 0x0A] @ b) blocks))
   \<and> foldl (\<lambda>a c. 10 * a + (of_char c - 48)) 0 (string_of_nat (k + 1)) = k + 1
   \<and> set (string_of_nat (k + 1)) \<subseteq> set ''0123456789''
   \<and> baseCommitMessage
        [\<lparr>commit = \<lparr>author = \<lparr>name = ''Ann'', email = ''ann@x.org'', date = ''2020-01-01''\<rparr>,
                    committer = \<lparr>name = ''Bob'', email = ''bob@x.org'', date = ''2020-01-02''\<rparr>,
                    message = ''Fix bug''\<rparr>,
          sha = ''abc123''\<rparr>,
         \<lparr>commit = \<lparr>author = \<lparr>name = ''Cy'', email = ''cy@x.org'', date = ''2020-01-03''\<rparr>,
                    committer = \<lparr>name = ''Di'', email = ''di@x.org'', date = ''2020-01-04''\<rparr>,
                    message = ''Add test''\<rparr>,
          sha = ''def456''\<rparr>]
       = ''[Commit 1]'' @ [CHR 0x0A] @ ''Fix bug'' @ [CHR 0x0A, CHR 0x0A]
         @ ''Original sha: abc123'' @ [CHR 0x0A]
         @ ''Authored by Ann <ann@x.org> on 2020-01-01'' @ [CHR 0x0A]
         @ ''Committed by Bob <bob@x.org> on 2020-01-02''
         @ [CHR 0x0A, CHR 0x0A]
         @ ''[Commit 2]'' @ [CHR 0x0A] @ ''Add test'' @ [CHR 0x0A, CHR 0x0A]
         @ ''Original sha: def456'' @ [CHR 0x0A]
         @ ''Authored by Cy <cy@x.org> on 2020-01-03'' @ [CHR 0x0A]
         @ ''Committed by Di <di@x.org> on 2020-01-04''"
proof (intro conjI)
  show "baseCommitMessage commits =
     (case map (\<lambda>i. ''[Commit '' @ string_of_nat (i + 1) @ '']'' @ [CHR 0x0A]
                  @ message (commit (commits ! i)) @ [CHR 0x0A, CHR 0x0A]
                  @ ''Original sha: '' @ sha (commits ! i) @ [CHR 0x0A]
                  @ ''Authored by '' @ name (author (commit (commits ! i)))
                    @ '' <'' @ email (author (commit (commits ! i)))
                    @ ''> on '' @ date (author (commit (commits ! i))) @ [CHR 0x0A]
                  @ ''Committed by '' @ name (committer (commit (commits ! i)))
                    @ '' <'' @ email (committer (commit (commits ! i)))
                    @ ''> on '' @ date (committer (commit (commits ! i))))
               [0..<length commits] of
        [] \<Rightarrow> []
      | block # blocks \<Rightarrow> block @ concat (map (\<lambda>b. [CHR 0x0A, CHR 0x0A] @ b) blocks))"
    unfolding baseCommitMessage_def map_commits_nth [of 0 commits] join_blocks blank_line
    by (simp only: commit_block_lines add_0)
  show "foldl (\<lambda>a c. 10 * a + (of_char c - 48)) 0 (string_of_nat (k + 1)) = k + 1"
    using string_of_nat_decimal [of "k + 1"] by (simp only: decimal_def)
  show "set (string_of_nat (k + 1)) \<subseteq> set ''0123456789''"
    by (rule string_of_nat_digits)
  show "baseCommitMessage
        [\<lparr>commit = \<lparr>author = \<lparr>name = ''Ann'', email = ''ann@x.org'', date = ''2020-01-01''\<rparr>,
                    committer = \<lparr>name = ''Bob'', email = ''bob@x.org'', date = ''2020-01-02''\<rparr>,
                    message = ''Fix bug''\<rparr>,
          sha = ''abc123''\<rparr>,
         \<lparr>commit = \<lparr>author = \<lparr>name = ''Cy'', email = ''cy@x.org'', date = ''2020-01-03''\<rparr>,
                    committer = \<lparr>name = ''Di'', email = ''di@x.org'', date = ''2020-01-04''\<rparr>,
                    message = ''Add test''\<rparr>,
          sha = ''def456''\<rparr>]
       = ''[Commit 1]'' @ [CHR 0x0A] @ ''Fix bug'' @ [CHR 0x0A, CHR 0x0A]
         @ ''Original sha: abc123'' @ [CHR 0x0A]
         @ ''Authored by Ann <ann@x.org> on 2020-01-01'' @ [CHR 0x0A]
         @ ''Committed by Bob <bob@x.org> on 2020-01-02''
         @ [CHR 0x0A, CHR 0x0A]
         @ ''[Commit 2]'' @ [CHR 0x0A] @ ''Add test'' @ [CHR 0x0A, CHR 0x0A]
         @ ''Original sha: def456'' @ [CHR 0x0A]
         @ ''Authored by Cy <cy@x.org> on 2020-01-03'' @ [CHR 0x0A]
         @ ''Committed by Di <di@x.org> on 2020-01-04''"
    by code_simp
qed

section \<open>Validation\<close>

lemma scenario_world_simps:
  "getInfo (scenario_world info applies pushing) = (\<lambda>repo number tr. Inr info)"
  "getCommits (scenario_world info applies pushing) = (\<lambda>repo number tr. Inr scenario_commits)"
  "getSignature (scenario_world info applies pushing) = Inr scenario_signature"
  by (simp_all add: scenario_world_def)

text \<open>
  C2. When a target is the base ref of the pull request, or the pull request is not merged,
  the run consists of the two requests for the pull request and its commits and of the
  report of the error: nothing is downloaded, no repository is touched, nothing is
  published. The error is the validation error unless the commits could not be fetched.
\<close>

theorem validation_gate:
  assumes "getInfo w repo number [] = Inr info"
    and "base_ref info \<in> set branches \<or> \<not> merged info"
  shows "backport w repo number branches =
           [GetInfo repo number (Inr info),
            GetCommits repo number (getCommits w repo number [GetInfo repo number (Inr info)]),
            EmitError
              (case getCommits w repo number [GetInfo repo number (Inr info)] of
                 Inl e \<Rightarrow> e
               | Inr commits \<Rightarrow>
                   if base_ref info \<in> set branches
                   then Error ''Cannot backport into original PR target branch''
                   else Error ''Cannot backport unmerged pull requests'')]"
  using assms
  by (auto simp: backport_def then_p_def all2_def call_def backport_steps_def validate_def
        reject_def initial_def Let_def split: sum.splits)

theorem validation_gate_witness:
  "getInfo unmerged_world ''elastic/kibana'' ''42'' [] = Inr (scenario_info\<lparr>merged := False\<rparr>)
   \<and> \<not> merged (scenario_info\<lparr>merged := False\<rparr>)
   \<and> backport unmerged_world ''elastic/kibana'' ''42'' targets =
       [GetInfo ''elastic/kibana'' ''42'' (Inr (scenario_info\<lparr>merged := False\<rparr>)),
        GetCommits ''elastic/kibana'' ''42'' (Inr scenario_commits),
        EmitError (Error ''Cannot backport unmerged pull requests'')]"
proof -
  have h: "getInfo unmerged_world ''elastic/kibana'' ''42'' [] = Inr (scenario_info\<lparr>merged := False\<rparr>)"
    by (simp add: unmerged_world_def scenario_world_simps)
  have m: "\<not> merged (scenario_info\<lparr>merged := False\<rparr>)"
    by simp
  have b: "base_ref (scenario_info\<lparr>merged := False\<rparr>) \<notin> set targets"
    by (simp add: scenario_info_def targets_def)
  from validation_gate [OF h, of targets] m b h show ?thesis
    by (simp add: unmerged_world_def scenario_world_simps)
qed

section \<open>The temporary file\<close>

text \<open>
  C3. A run in which \<open>git apply\<close> fails without reporting a conflict: the temporary file
  has been created, the run ends with the error, and \<open>cleanupTmp\<close> is never called.
\<close>

theorem temporary_file_left_behind:
  "backport broken_patch_world ''elastic/kibana'' ''42'' targets =
     [GetInfo ''elastic/kibana'' ''42'' (Inr scenario_info),
      GetCommits ''elastic/kibana'' ''42'' (Inr scenario_commits),
      RequestGet ''https://github.com/elastic/kibana/pull/42.diff'' (Inr ''diff --git a/f b/f''),
      TmpFile ''jasper-'' (Inr ''/tmp/jasper-1''),
      WriteFile ''/tmp/jasper-1'' ''diff --git a/f b/f'' (Inr ()),
      OpenOrClone ''/srv/jasper/repos/elastic/kibana'' ''git@github.com:elastic/kibana.git'' (Inr ()),
      Fetch ''origin'' (Inr ()),
      GetReferenceCommit ''origin/release-1.0'' (Inr ''tip of origin/release-1.0''),
      CreateBranch ''jasper/backport/42-release-1.0-feature-x'' ''tip of origin/release-1.0'' (Inr ()),
      CheckoutBranch ''jasper/backport/42-release-1.0-feature-x'' (Inr ()),
      ExecFile ''git'' [''apply'', ''--3way'', ''/tmp/jasper-1''] ''/srv/jasper/repos/elastic/kibana''
        (Inl (Error ''error: patch failed: src/a.js:1'')),
      EmitError (Error ''error: patch failed: src/a.js:1'')]
   \<and> CleanupTmp ''/tmp/jasper-1'' \<notin> set (backport broken_patch_world ''elastic/kibana'' ''42'' targets)"
  by code_simp

section \<open>The URL of the pull request\<close>

lemma handler_throws: "PR_URL_REGEX url = None \<Longrightarrow> handler w url allBranches = Threw_TypeError"
  by (simp add: handler_def)

lemma handler_returns:
  "PR_URL_REGEX url = Some (repo, number) \<Longrightarrow>
   handler w url allBranches = Returned (backport w repo number (split_spaces [] False allBranches))"
  by (simp add: handler_def)

text \<open>
  C10. A URL that is not on \<open>github.com\<close> and yet passes \<open>PR_URL_REGEX\<close>, whose dot is
  not escaped: the handler does not throw, and the chain starts with the request for the
  pull request.
\<close>

theorem url_with_any_character_for_the_dot:
  "PR_URL_REGEX ''https://githubXcom/elastic/kibana/pull/42'' = Some (''elastic/kibana'', ''42'')
   \<and> handler clean_world ''https://githubXcom/elastic/kibana/pull/42'' ''release-1.0 release-2.0''
       = Returned (backport clean_world ''elastic/kibana'' ''42'' targets)
   \<and> hd (backport clean_world ''elastic/kibana'' ''42'' targets)
       = GetInfo ''elastic/kibana'' ''42'' (Inr scenario_info)"
  by code_simp

section \<open>Staging, and the label of a conflict\<close>

lemma after_IndexWrite:
  assumes run: "backport w repo number branches = pre @ IndexWrite c # post"
  shows "case c of Inl e \<Rightarrow> post = [EmitError e]
         | Inr _ \<Rightarrow> (\<exists>t post'. post = IndexWriteTree t # post')"
proof (cases c)
  case (Inl e)
  with run have "post = [EmitError e]"
    by (intro run_fails [of w repo number branches pre "IndexWrite c"]) simp_all
  with Inl show ?thesis by simp
next
  case (Inr u)
  from run obtain y post' where p: "post = y # post'" and f: "may_follow (IndexWrite c) y"
    by (rule run_next) simp
  from f Inr obtain t where "y = IndexWriteTree t" by (cases y) simp_all
  with p Inr show ?thesis by simp
qed

lemma after_IndexAddAll:
  assumes run: "backport w repo number branches = pre @ IndexAddAll p b # post"
  shows "case b of Inl e \<Rightarrow> post = [EmitError e]
         | Inr _ \<Rightarrow> (\<exists>c post'. post = IndexWrite c # post'
              \<and> (case c of Inl e \<Rightarrow> post' = [EmitError e]
                  | Inr _ \<Rightarrow> (\<exists>t post''. post' = IndexWriteTree t # post'')))"
proof (cases b)
  case (Inl e)
  with run have "post = [EmitError e]"
    by (intro run_fails [of w repo number branches pre "IndexAddAll p b"]) simp_all
  with Inl show ?thesis by simp
next
  case (Inr u)
  from run obtain y post' where p: "post = y # post'" and f: "may_follow (IndexAddAll p b) y"
    by (rule run_next) simp
  from f Inr obtain c where y: "y = IndexWrite c" by (cases y) simp_all
  from run p y have "backport w repo number branches = (pre @ [IndexAddAll p b]) @ IndexWrite c # post'"
    by simp
  from after_IndexWrite [OF this] p y Inr show ?thesis by simp
qed

lemma after_RepoIndex:
  assumes run: "backport w repo number branches = pre @ RepoIndex a # post"
  shows "case a of Inl e \<Rightarrow> post = [EmitError e]
         | Inr _ \<Rightarrow> (\<exists>b post1. post = IndexAddAll ''.'' b # post1
              \<and> (case b of Inl e \<Rightarrow> post1 = [EmitError e]
                  | Inr _ \<Rightarrow> (\<exists>c post2. post1 = IndexWrite c # post2
                       \<and> (case c of Inl e \<Rightarrow> post2 = [EmitError e]
                           | Inr _ \<Rightarrow> (\<exists>t post3. post2 = IndexWriteTree t # post3)))))"
proof (cases a)
  case (Inl e)
  with run have "post = [EmitError e]"
    by (intro run_fails [of w repo number branches pre "RepoIndex a"]) simp_all
  with Inl show ?thesis by simp
next
  case (Inr u)
  from run obtain y post1 where p: "post = y # post1" and f: "may_follow (RepoIndex a) y"
    by (rule run_next) simp
  from f Inr obtain b where y: "y = IndexAddAll ''.'' b" by (cases y) simp_all
  from run p y have "backport w repo number branches = (pre @ [RepoIndex a]) @ IndexAddAll ''.'' b # post1"
    by simp
  from after_IndexAddAll [OF this] p y Inr show ?thesis by simp
qed

text \<open>
  C5. Where \<open>git apply\<close> has answered in a run, with success or with an error whose message
  matches \<open>CONFLICTS_REGEX\<close>, the steps that follow are the same: the index of the
  repository, \<open>addAll\<close> with the path specification \<open>.\<close>, the writing of the index and
  the writing of the tree; a step that fails ends the run with its error. Where an issue is
  created, every entry of the list has had its \<open>git apply\<close>; the issue is the one of the
  entry at the position given by the number of issues created before; its labels are
  \<open>backport\<close> and \<open>has conflicts\<close> if \<open>git apply\<close> has reported a conflict for an entry
  of the list that names the same branch as this one, \<open>backport\<close> alone otherwise. When no
  branch is named twice in the list this is the entry's own \<open>git apply\<close>.
\<close>

theorem staged_and_labelled:
  assumes info: "getInfo w repo number [] = Inr info"
    and commits: "getCommits w repo number [GetInfo repo number (Inr info)] = Inr commits"
    and run: "backport w repo number branches = pre @ x # post"
  shows "(\<forall>cmd args cwd r. x = ExecFile cmd args cwd r \<longrightarrow>
            (r = Inr () \<or> (\<exists>e. r = Inl e \<and> CONFLICTS_REGEX_test (err_message e))) \<longrightarrow>
            (\<exists>a post0. post = RepoIndex a # post0
              \<and> (case a of Inl e \<Rightarrow> post0 = [EmitError e]
                  | Inr _ \<Rightarrow> (\<exists>b post1. post0 = IndexAddAll ''.'' b # post1
                       \<and> (case b of Inl e \<Rightarrow> post1 = [EmitError e]
                           | Inr _ \<Rightarrow> (\<exists>c post2. post1 = IndexWrite c # post2
                                \<and> (case c of Inl e \<Rightarrow> post2 = [EmitError e]
                                    | Inr _ \<Rightarrow> (\<exists>t post3. post2 = IndexWriteTree t # post3))))))))
       \<and> (\<forall>g p r. x = CreateIssue g p r \<longrightarrow>
            length (apply_results pre) = length branches
            \<and> length (issued pre) < length branches
            \<and> title p = ''[backport] PR #'' @ number @ '' to '' @ branches ! length (issued pre)
            \<and> labels p =
                (if \<exists>j. j < length branches \<and> branches ! j = branches ! length (issued pre)
                        \<and> (\<exists>e. apply_results pre ! j = Inl e
                                \<and> CONFLICTS_REGEX_test (err_message e))
                 then [''backport'', ''has conflicts''] else [''backport''])
            \<and> (distinct branches \<longrightarrow>
                  labels p =
                    (if \<exists>e. apply_results pre ! length (issued pre) = Inl e
                             \<and> CONFLICTS_REGEX_test (err_message e)
                     then [''backport'', ''has conflicts''] else [''backport''])))"
proof (intro conjI allI impI)
  fix cmd args cwd r
  assume x: "x = ExecFile cmd args cwd r"
    and r: "r = Inr () \<or> (\<exists>e. r = Inl e \<and> CONFLICTS_REGEX_test (err_message e))"
  from run x have "backport w repo number branches = pre @ ExecFile cmd args cwd r # post"
    by simp
  then obtain y post0 where p: "post = y # post0" and f: "may_follow (ExecFile cmd args cwd r) y"
    by (rule run_next) simp
  from f r obtain a where y: "y = RepoIndex a" by (cases y) auto
  from run x p y have "backport w repo number branches = (pre @ [x]) @ RepoIndex a # post0"
    by simp
  from after_RepoIndex [OF this] p y
  show "\<exists>a post0. post = RepoIndex a # post0
              \<and> (case a of Inl e \<Rightarrow> post0 = [EmitError e]
                  | Inr _ \<Rightarrow> (\<exists>b post1. post0 = IndexAddAll ''.'' b # post1
                       \<and> (case b of Inl e \<Rightarrow> post1 = [EmitError e]
                           | Inr _ \<Rightarrow> (\<exists>c post2. post1 = IndexWrite c # post2
                                \<and> (case c of Inl e \<Rightarrow> post2 = [EmitError e]
                                    | Inr _ \<Rightarrow> (\<exists>t post3. post2 = IndexWriteTree t # post3))))))"
    by blast
next
  fix g p r
  assume x: "x = CreateIssue g p r"
  note occ = run_occurrence [OF info commits run, unfolded x occurrence_ok_def event.case]
  let ?i = "length (issued pre)"
  let ?own = "\<exists>e. apply_results pre ! ?i = Inl e \<and> CONFLICTS_REGEX_test (err_message e)"
  let ?named = "\<exists>j. j < length branches \<and> branches ! j = branches ! ?i
      \<and> (\<exists>e. apply_results pre ! j = Inl e \<and> CONFLICTS_REGEX_test (err_message e))"
  from occ have len: "length (apply_results pre) = length branches"
    by (elim conjE)
  from occ obtain "done" target rest where b: "branches = done @ target # rest"
    and i: "map fst (issued pre) =
              map (issue_request number (baseCommitMessage commits) info
                     (conflicted branches (apply_results pre))) done"
    and p: "p = issue_request number (baseCommitMessage commits) info
                  (conflicted branches (apply_results pre)) target"
    by (elim conjE exE)
  from i have "length (map fst (issued pre)) = length done" by simp
  then have d: "?i = length done" by simp
  with b have t: "branches ! ?i = target" and lt: "?i < length branches" by simp_all
  from p t have title: "title p = ''[backport] PR #'' @ number @ '' to '' @ branches ! ?i"
    by (simp add: issue_request_def)
  from p t have "labels p = (if branches ! ?i \<in> set (conflicted branches (apply_results pre))
                 then [''backport'', ''has conflicts''] else [''backport''])"
    by (simp add: issue_request_def)
  then have named: "labels p = (if ?named then [''backport'', ''has conflicts''] else [''backport''])"
    unfolding conflicted_iff [OF len] .
  show "length (apply_results pre) = length branches" by (rule len)
  show "?i < length branches" by (rule lt)
  show "title p = ''[backport] PR #'' @ number @ '' to '' @ branches ! ?i" by (rule title)
  show "labels p = (if ?named then [''backport'', ''has conflicts''] else [''backport''])"
    by (rule named)
  show "labels p = (if ?own then [''backport'', ''has conflicts''] else [''backport''])"
    if "distinct branches"
  proof -
    have "?named = ?own"
    proof
      assume ?named
      then obtain j where j: "j < length branches" "branches ! j = branches ! ?i"
        and c: "\<exists>e. apply_results pre ! j = Inl e \<and> CONFLICTS_REGEX_test (err_message e)"
        by blast
      from that j lt have "j = ?i" by (simp add: nth_eq_iff_index_eq)
      with c show ?own by simp
    next
      assume ?own
      with lt show ?named by blast
    qed
    with named show ?thesis by simp
  qed
qed

theorem staged_and_labelled_witness:
  "(\<exists>a post0. drop 11 (backport conflict_world ''elastic/kibana'' ''42'' targets) = RepoIndex a # post0)
   \<and> (\<exists>a post0. drop 22 (backport conflict_world ''elastic/kibana'' ''42'' targets) = RepoIndex a # post0)
   \<and> apply_results (take 32 (backport conflict_world ''elastic/kibana'' ''42'' targets))
       = [Inl (Error conflict_message), Inr ()]
   \<and> issued (take 32 (backport conflict_world ''elastic/kibana'' ''42'' targets)) = []
   \<and> labels (issue_request ''42'' (baseCommitMessage scenario_commits) scenario_info
                [''release-1.0''] ''release-1.0'')
       = (if \<exists>e. apply_results (take 32 (backport conflict_world ''elastic/kibana'' ''42'' targets))
                    ! length (issued (take 32 (backport conflict_world ''elastic/kibana'' ''42'' targets)))
                  = Inl e
                \<and> CONFLICTS_REGEX_test (err_message e)
          then [''backport'', ''has conflicts''] else [''backport''])
   \<and> labels (issue_request ''42'' (baseCommitMessage scenario_commits) scenario_info
                [''release-1.0''] ''release-1.0'')
       = [''backport'', ''has conflicts'']"
proof -
  let ?run = "backport conflict_world ''elastic/kibana'' ''42'' targets"
  let ?conflict = "ExecFile ''git'' [''apply'', ''--3way'', ''/tmp/jasper-1'']
      ''/srv/jasper/repos/elastic/kibana'' (Inl (Error conflict_message))"
  let ?clean = "ExecFile ''git'' [''apply'', ''--3way'', ''/tmp/jasper-1'']
      ''/srv/jasper/repos/elastic/kibana'' (Inr ())"
  let ?p = "issue_request ''42'' (baseCommitMessage scenario_commits) scenario_info
      [''release-1.0''] ''release-1.0''"
  let ?issue = "CreateIssue ''elastic/kibana'' ?p (Inr 132)"
  have a: "?run = take 10 ?run @ ?conflict # drop 11 ?run"
    by (simp add: conflict_run)
  have b: "?run = take 21 ?run @ ?clean # drop 22 ?run"
    by (simp add: conflict_run)
  have c: "?run = take 32 ?run @ ?issue # drop 33 ?run"
    by (simp add: conflict_run)
  have "CONFLICTS_REGEX_test (err_message (Error conflict_message))"
    by (simp add: conflict_message_matches)
  then have m: "Inl (Error conflict_message) = Inr () \<or>
      (\<exists>e. Inl (Error conflict_message) = Inl e \<and> CONFLICTS_REGEX_test (err_message e))"
    by blast
  have n: "Inr () = Inr () \<or> (\<exists>e. Inr () = Inl e \<and> CONFLICTS_REGEX_test (err_message e))"
    by simp
  have applied: "apply_results (take 32 ?run) = [Inl (Error conflict_message), Inr ()]"
    by (simp add: conflict_run apply_results_def)
  have none: "issued (take 32 ?run) = []"
    by (simp add: conflict_run issued_def)
  have d: "distinct targets"
    by (simp add: targets_def)
  from staged_and_labelled [OF scenario_answers(1,2) a, THEN conjunct1, rule_format, OF refl m]
  have e: "\<exists>a post0. drop 11 ?run = RepoIndex a # post0"
    by (elim exE conjE) (rule exI, rule exI, assumption)
  from staged_and_labelled [OF scenario_answers(1,2) b, THEN conjunct1, rule_format, OF refl n]
  have f: "\<exists>a post0. drop 22 ?run = RepoIndex a # post0"
    by (elim exE conjE) (rule exI, rule exI, assumption)
  from staged_and_labelled [OF scenario_answers(1,2) c, THEN conjunct2, rule_format, OF refl]
  have "distinct targets \<longrightarrow>
      labels ?p = (if \<exists>e. apply_results (take 32 ?run) ! length (issued (take 32 ?run)) = Inl e
                         \<and> CONFLICTS_REGEX_test (err_message e)
                   then [''backport'', ''has conflicts''] else [''backport''])"
    by (elim conjE)
  then have g: "labels ?p = (if \<exists>e. apply_results (take 32 ?run) ! length (issued (take 32 ?run)) = Inl e
                         \<and> CONFLICTS_REGEX_test (err_message e)
                   then [''backport'', ''has conflicts''] else [''backport''])"
    using d by (rule mp)
  have h: "labels ?p = [''backport'', ''has conflicts'']"
    by (simp add: issue_request_def)
  show ?thesis
    by (rule conjI [OF e conjI [OF f conjI [OF applied conjI [OF none conjI [OF g h]]]]])
qed

text \<open>
  The run in which \<open>release-1.0\<close> is given twice, the first \<open>git apply\<close> reports a conflict
  and the second applies cleanly: both issues are labelled \<open>has conflicts\<close>.
\<close>

theorem clean_duplicate_labelled:
  "apply_results (backport conflict_world ''elastic/kibana'' ''42'' [''release-1.0'', ''release-1.0''])
     = [Inl (Error conflict_message), Inr ()]
   \<and> map labels (map fst
       (issued (backport conflict_world ''elastic/kibana'' ''42'' [''release-1.0'', ''release-1.0''])))
     = [[''backport'', ''has conflicts''], [''backport'', ''has conflicts'']]"
  by code_simp

section \<open>The commit of a backport\<close>

text \<open>
  C7. Where a commit is created in a run, the events before it, leaving aside those of
  the download of the diff (which runs beside the chain until the patch is applied), end
  with the steps of one target of the list, all successful but for \<open>git apply\<close>, which
  may have reported anything that lets the run go on: the commit of \<open>origin/<target>\<close> is
  looked up, the derived branch is created on it and checked out, the patch is applied,
  the index is obtained, filled with \<open>.\<close>, written, and written as a tree, and the head
  commit and the signature are obtained. The commit is created on \<open>HEAD\<close>, with this
  signature (the one signature of the world) as author and as committer, with the tree
  just written, with the head commit as its one parent, and with the message
  \<open>Backport PR #<number> to <target>\<close>, two line feeds, and the consolidated message.
  A run that ends with the report of success has created one such commit for every target,
  in the order of the list.
\<close>

theorem backport_commit:
  assumes info: "getInfo w repo number [] = Inr info"
    and commits: "getCommits w repo number [GetInfo repo number (Inr info)] = Inr commits"
    and run: "backport w repo number branches = pre @ CreateCommit h a c m t p r # post"
  shows "(\<exists>pre' target c0 path cwd ra parent sg.
            filter (\<lambda>ev. \<not> diff_event ev) pre =
              pre' @ [GetReferenceCommit (''origin/'' @ target) (Inr c0),
                      CreateBranch (backportBranchName number (head_ref info) target) c0 (Inr ()),
                      CheckoutBranch (backportBranchName number (head_ref info) target) (Inr ()),
                      ExecFile ''git'' [''apply'', ''--3way'', path] cwd ra,
                      RepoIndex (Inr ()), IndexAddAll ''.'' (Inr ()), IndexWrite (Inr ()),
                      IndexWriteTree (Inr t), GetHeadCommit (Inr parent), GetSignature (Inr sg)]
            \<and> target \<in> set branches \<and> getSignature w = Inr sg
            \<and> h = ''HEAD'' \<and> a = sg \<and> c = sg \<and> p = [parent]
            \<and> m = ''Backport PR #'' @ number @ '' to '' @ target @ [CHR 0x0A, CHR 0x0A]
                    @ baseCommitMessage commits)
       \<and> (succeeded (backport w repo number branches) \<longrightarrow>
            committed (backport w repo number branches) =
              map (\<lambda>target. ''Backport PR #'' @ number @ '' to '' @ target @ [CHR 0x0A, CHR 0x0A]
                     @ baseCommitMessage commits) branches)"
proof (intro conjI impI)
  let ?chain = "filter (\<lambda>ev. \<not> diff_event ev)"
  from run_occurrence [OF info commits run, unfolded occurrence_ok_def event.case]
  obtain pre' target c0 path cwd ra parent sg
    where pre: "pre = pre' @ [GetReferenceCommit (''origin/'' @ target) (Inr c0),
                      CreateBranch (backportBranchName number (head_ref info) target) c0 (Inr ()),
                      CheckoutBranch (backportBranchName number (head_ref info) target) (Inr ()),
                      ExecFile ''git'' [''apply'', ''--3way'', path] cwd ra,
                      RepoIndex (Inr ()), IndexAddAll ''.'' (Inr ()), IndexWrite (Inr ()),
                      IndexWriteTree (Inr t), GetHeadCommit (Inr parent), GetSignature (Inr sg)]"
      and target: "target \<in> set branches" and sg: "getSignature w = Inr sg"
      and h: "h = ''HEAD''" and a: "a = sg" and c: "c = sg" and p: "p = [parent]"
      and m: "m = commitMessage number target (baseCommitMessage commits)"
    by (elim exE conjE)
  have "?chain pre = ?chain pre' @ [GetReferenceCommit (''origin/'' @ target) (Inr c0),
                      CreateBranch (backportBranchName number (head_ref info) target) c0 (Inr ()),
                      CheckoutBranch (backportBranchName number (head_ref info) target) (Inr ()),
                      ExecFile ''git'' [''apply'', ''--3way'', path] cwd ra,
                      RepoIndex (Inr ()), IndexAddAll ''.'' (Inr ()), IndexWrite (Inr ()),
                      IndexWriteTree (Inr t), GetHeadCommit (Inr parent), GetSignature (Inr sg)]"
    unfolding pre by simp
  moreover from m have "m = ''Backport PR #'' @ number @ '' to '' @ target @ [CHR 0x0A, CHR 0x0A]
                    @ baseCommitMessage commits"
    by (simp add: commitMessage_def newline_def)
  ultimately show "\<exists>pre' target c0 path cwd ra parent sg.
            ?chain pre =
              pre' @ [GetReferenceCommit (''origin/'' @ target) (Inr c0),
                      CreateBranch (backportBranchName number (head_ref info) target) c0 (Inr ()),
                      CheckoutBranch (backportBranchName number (head_ref info) target) (Inr ()),
                      ExecFile ''git'' [''apply'', ''--3way'', path] cwd ra,
                      RepoIndex (Inr ()), IndexAddAll ''.'' (Inr ()), IndexWrite (Inr ()),
                      IndexWriteTree (Inr t), GetHeadCommit (Inr parent), GetSignature (Inr sg)]
            \<and> target \<in> set branches \<and> getSignature w = Inr sg
            \<and> h = ''HEAD'' \<and> a = sg \<and> c = sg \<and> p = [parent]
            \<and> m = ''Backport PR #'' @ number @ '' to '' @ target @ [CHR 0x0A, CHR 0x0A]
                    @ baseCommitMessage commits"
    using target sg h a c p by (intro exI conjI)
next
  assume "succeeded (backport w repo number branches)"
  with info commits have "completed number branches info commits (backport w repo number branches)"
    by (rule run_completed)
  then have "committed (backport w repo number branches) =
      map (\<lambda>target. commitMessage number target (baseCommitMessage commits)) branches"
    unfolding completed_def commit_messages_def by (rule conjunct1)
  then show "committed (backport w repo number branches) =
              map (\<lambda>target. ''Backport PR #'' @ number @ '' to '' @ target @ [CHR 0x0A, CHR 0x0A]
                     @ baseCommitMessage commits) branches"
    by (simp add: commitMessage_def newline_def)
qed

theorem backport_commit_witness:
  "(\<exists>pre' target c0 path cwd ra parent sg.
      filter (\<lambda>ev. \<not> diff_event ev) (take 17 (backport conflict_world ''elastic/kibana'' ''42'' targets)) =
        pre' @ [GetReferenceCommit (''origin/'' @ target) (Inr c0),
                CreateBranch (backportBranchName ''42'' (head_ref scenario_info) target) c0 (Inr ()),
                CheckoutBranch (backportBranchName ''42'' (head_ref scenario_info) target) (Inr ()),
                ExecFile ''git'' [''apply'', ''--3way'', path] cwd ra,
                RepoIndex (Inr ()), IndexAddAll ''.'' (Inr ()), IndexWrite (Inr ()),
                IndexWriteTree (Inr ''tree 1''), GetHeadCommit (Inr parent), GetSignature (Inr sg)]
      \<and> target \<in> set targets \<and> getSignature conflict_world = Inr sg
      \<and> ''HEAD'' = ''HEAD'' \<and> scenario_signature = sg \<and> scenario_signature = sg
      \<and> [''head 1''] = [parent]
      \<and> commitMessage ''42'' ''release-1.0'' (baseCommitMessage scenario_commits)
          = ''Backport PR #'' @ ''42'' @ '' to '' @ target @ [CHR 0x0A, CHR 0x0A]
            @ baseCommitMessage scenario_commits)
   \<and> committed (backport conflict_world ''elastic/kibana'' ''42'' targets) =
       map (\<lambda>target. ''Backport PR #'' @ ''42'' @ '' to '' @ target @ [CHR 0x0A, CHR 0x0A]
              @ baseCommitMessage scenario_commits) targets"
proof -
  let ?run = "backport conflict_world ''elastic/kibana'' ''42'' targets"
  have d: "?run = take 17 ?run
      @ CreateCommit ''HEAD'' scenario_signature scenario_signature
          (commitMessage ''42'' ''release-1.0'' (baseCommitMessage scenario_commits))
          ''tree 1'' [''head 1''] (Inr ''commit 1'')
      # drop 18 ?run"
    by (simp add: conflict_run)
  have s: "succeeded ?run"
    by (simp add: conflict_run succeeded_def)
  note t = backport_commit [OF scenario_answers(1,2) d]
  show ?thesis
    by (rule conjI [OF t [THEN conjunct1] t [THEN conjunct2, rule_format, OF s]])
qed

section \<open>The pushes\<close>



section \<open>Issues and pull requests\<close>








end
